theory Spec2Isabelle
  imports Complex_Main "HOL-Library.Word"
begin

section \<open>JavaScript numbers and clamped byte arrays\<close>

text \<open>
  The program computes with JavaScript numbers and stores them in \<^verbatim>\<open>Uint8ClampedArray\<close>s.
  A number is modelled as an exact real or \<open>NaN\<close>. Every array element is an integer in
  0..255, and the operands that decide the properties proved below are integers and
  halves of small magnitude, on which the double arithmetic of the source is exact. The
  one inexact operation, the quotient by 3 in \<^verbatim>\<open>read\<close>, has a fractional part of 0, 1/3
  or 2/3 and so stays far from a rounding boundary. Infinities and the sign of zero decide
  no branch of the program and are left out.
\<close>

type_synonym u8 = "8 word"

datatype number = NaN | Num real

fun num_add :: "number \<Rightarrow> number \<Rightarrow> number" where
  "num_add (Num x) (Num y) = Num (x + y)"
| "num_add _ _ = NaN"

fun num_sub :: "number \<Rightarrow> number \<Rightarrow> number" where
  "num_sub (Num x) (Num y) = Num (x - y)"
| "num_sub _ _ = NaN"

fun num_mul :: "number \<Rightarrow> number \<Rightarrow> number" where
  "num_mul (Num x) (Num y) = Num (x * y)"
| "num_mul _ _ = NaN"

text \<open>
  The source divides only by the constant 3. A quotient by zero, an infinity or \<open>NaN\<close>
  in JavaScript, is \<open>NaN\<close> here.
\<close>

fun num_div :: "number \<Rightarrow> number \<Rightarrow> number" where
  "num_div (Num x) (Num y) = (if y = 0 then NaN else Num (x / y))"
| "num_div _ _ = NaN"

text \<open>Every comparison with \<open>NaN\<close> is false.\<close>

fun num_ge :: "number \<Rightarrow> number \<Rightarrow> bool" where
  "num_ge (Num x) (Num y) = (y \<le> x)"
| "num_ge _ _ = False"

fun num_gt :: "number \<Rightarrow> number \<Rightarrow> bool" where
  "num_gt (Num x) (Num y) = (y < x)"
| "num_gt _ _ = False"

text \<open>
  The conversion applied by every store into a \<^verbatim>\<open>Uint8ClampedArray\<close>
  (ECMAScript \<^verbatim>\<open>ToUint8Clamp\<close>): \<open>NaN\<close> becomes 0, the value is clamped to 0..255 and
  rounded to the nearest integer, a tie going to the even neighbour.
\<close>

definition ToUint8Clamp :: "number \<Rightarrow> u8" where
  "ToUint8Clamp v =
     (case v of
        NaN \<Rightarrow> 0
      | Num x \<Rightarrow>
          if x \<le> 0 then 0
          else if 255 \<le> x then 255
          else (let f = \<lfloor>x\<rfloor> in
                if of_int f + 1 / 2 < x then word_of_int (f + 1)
                else if x < of_int f + 1 / 2 then word_of_int f
                else if even f then word_of_int f
                else word_of_int (f + 1)))"

text \<open>
  Reading \<^verbatim>\<open>a[i]\<close> from a typed array gives \<^verbatim>\<open>undefined\<close> (here \<open>None\<close>) when the
  index is negative or not below the length; arithmetic turns \<^verbatim>\<open>undefined\<close> into
  \<open>NaN\<close>. A store \<^verbatim>\<open>a[i] = v\<close> converts \<open>v\<close> and is ignored out of range.
\<close>

definition readAt :: "u8 list \<Rightarrow> int \<Rightarrow> u8 option" where
  "readAt a i = (if 0 \<le> i \<and> i < int (length a) then Some (a ! nat i) else None)"

definition ToNumber :: "u8 option \<Rightarrow> number" where
  "ToNumber v = (case v of None \<Rightarrow> NaN | Some b \<Rightarrow> Num (of_int (uint b)))"

definition writeAt :: "u8 list \<Rightarrow> nat \<Rightarrow> number \<Rightarrow> u8 list" where
  "writeAt a i v = a[i := ToUint8Clamp v]"

text \<open>
  The loop \<^verbatim>\<open>for (var i = 0; i < n; i++) body\<close>, threading the mutated state. Every loop
  of the source runs to the length of an array that its body does not resize, so the
  bound is the length on entry.
\<close>

definition forIndex :: "nat \<Rightarrow> (nat \<Rightarrow> 's \<Rightarrow> 's) \<Rightarrow> 's \<Rightarrow> 's" where
  "forIndex n body s = fold body [0..<n] s"

section \<open>GreyscaleImage\<close>

record GreyscaleImage =
  data :: "u8 list"
  width :: nat
  height :: nat

text \<open>The object a constructor call \<^verbatim>\<open>new GreyscaleImage()\<close> creates.\<close>

definition newGreyscaleImage :: GreyscaleImage where
  "newGreyscaleImage = \<lparr>data = [], width = 0, height = 0\<rparr>"

text \<open>\<^verbatim>\<open>_setSize\<close>: a change of dimensions allocates a fresh zero-filled array.\<close>

definition setSize :: "nat \<Rightarrow> nat \<Rightarrow> 'a GreyscaleImage_scheme \<Rightarrow> 'a GreyscaleImage_scheme" where
  "setSize w h this =
     (if w \<noteq> width this \<or> h \<noteq> height this
      then this\<lparr>width := w, height := h, data := replicate (w * h) 0\<rparr>
      else this)"

text \<open>
  What \<^verbatim>\<open>read\<close> takes from its canvas context: the canvas dimensions and the bytes
  \<^verbatim>\<open>getImageData(0, 0, width, height).data\<close>, four per pixel in the order R, G, B, A.
  The call belongs to the browser and is taken to return.
\<close>

record CanvasRenderingContext2D =
  canvasWidth :: nat
  canvasHeight :: nat
  imageData :: "u8 list"

definition read :: "CanvasRenderingContext2D \<Rightarrow> 'a GreyscaleImage_scheme \<Rightarrow> 'a GreyscaleImage_scheme" where
  "read context this =
     (let this1 = setSize (canvasWidth context) (canvasHeight context) this;
          colorPixels = imageData context
      in this1\<lparr>data := forIndex (length (data this1))
           (\<lambda>i d. writeAt d i
              (num_div
                 (num_add
                    (num_add (ToNumber (readAt colorPixels (int i * 4)))
                             (ToNumber (readAt colorPixels (int i * 4 + 1))))
                    (ToNumber (readAt colorPixels (int i * 4 + 2))))
                 (Num 3)))
           (data this1)\<rparr>)"

definition updateFrom :: "'b GreyscaleImage_scheme \<Rightarrow> 'a GreyscaleImage_scheme \<Rightarrow> 'a GreyscaleImage_scheme" where
  "updateFrom source this =
     (let this1 = setSize (width source) (height source) this
      in this1\<lparr>data := forIndex (length (data this1))
           (\<lambda>i d. writeAt d i (ToNumber (readAt (data source) (int i))))
           (data this1)\<rparr>)"

definition subtract :: "'b GreyscaleImage_scheme \<Rightarrow> 'a GreyscaleImage_scheme \<Rightarrow> 'a GreyscaleImage_scheme" where
  "subtract other this =
     this\<lparr>data := forIndex (length (data this))
       (\<lambda>i d. writeAt d i
          (num_add
             (num_sub (ToNumber (readAt d (int i))) (ToNumber (readAt (data other) (int i))))
             (Num 128)))
       (data this)\<rparr>"

text \<open>
  In \<^verbatim>\<open>increaseContrast\<close> the product with \<open>factor\<close> is exact here and rounded to a double
  in the source; for a factor that is not a dyadic fraction the stored byte can differ
  by one. No property below depends on the bytes this method stores: it enters only as
  some function of the image and the factor.
\<close>

definition increaseContrast :: "number \<Rightarrow> 'a GreyscaleImage_scheme \<Rightarrow> 'a GreyscaleImage_scheme" where
  "increaseContrast factor this =
     this\<lparr>data := forIndex (length (data this))
       (\<lambda>i d. writeAt d i
          (num_add (ToNumber (readAt d (int i)))
             (num_mul (num_sub (ToNumber (readAt d (int i))) (Num 128)) factor)))
       (data this)\<rparr>"

text \<open>
  The defaults \<^verbatim>\<open>whiteThreshold = 128\<close> of \<^verbatim>\<open>toBinary\<close> and \<^verbatim>\<open>maxInterval = 10\<close> of
  \<^verbatim>\<open>update\<close> stand for an omitted argument; here the argument is always given.
\<close>

definition toBinary :: "number \<Rightarrow> 'a GreyscaleImage_scheme \<Rightarrow> 'a GreyscaleImage_scheme" where
  "toBinary whiteThreshold this =
     this\<lparr>data := forIndex (length (data this))
       (\<lambda>i d. writeAt d i
          (num_add (ToNumber (readAt d (int i)))
             (num_mul
                (num_add (num_sub (ToNumber (readAt d (int i))) whiteThreshold) (Num 1))
                (Num 255))))
       (data this)\<rparr>"

definition pixelSum :: "'a GreyscaleImage_scheme \<Rightarrow> number" where
  "pixelSum this = foldl (\<lambda>a b. num_add a (ToNumber (Some b))) (Num 0) (data this)"

text \<open>
  The nine reads of \<^verbatim>\<open>discardOutliers\<close> at index \<open>i\<close> of the array being rewritten,
  added from left to right as the source writes them.
\<close>

definition neighbourSum :: "u8 list \<Rightarrow> int \<Rightarrow> int \<Rightarrow> number" where
  "neighbourSum d w i =
     num_add (num_add (num_add (num_add (num_add (num_add (num_add (num_add
       (ToNumber (readAt d (i - w - 1)))
       (ToNumber (readAt d (i - w))))
       (ToNumber (readAt d (i - w + 1))))
       (ToNumber (readAt d (i - 1))))
       (ToNumber (readAt d i)))
       (ToNumber (readAt d (i + 1))))
       (ToNumber (readAt d (i + w - 1))))
       (ToNumber (readAt d (i + w))))
       (ToNumber (readAt d (i + w + 1)))"

definition discardOutliers :: "number \<Rightarrow> 'a GreyscaleImage_scheme \<Rightarrow> 'a GreyscaleImage_scheme" where
  "discardOutliers outlierThreshold this =
     (let w = int (width this)
      in this\<lparr>data := forIndex (length (data this))
           (\<lambda>i d. writeAt d i
              (if num_ge (neighbourSum d w (int i)) (num_mul outlierThreshold (Num 255))
               then Num 255 else Num 0))
           (data this)\<rparr>)"

section \<open>TransitionCountingImage\<close>

record TransitionCountingImage = GreyscaleImage +
  nextExpected :: "u8 list"
  txTimer :: "u8 list"

definition newTransitionCountingImage :: TransitionCountingImage where
  "newTransitionCountingImage =
     \<lparr>data = [], width = 0, height = 0, nextExpected = [], txTimer = []\<rparr>"

text \<open>The first block of \<^verbatim>\<open>update\<close>: all three arrays are reallocated together.\<close>

definition resizeFor ::
  "'a GreyscaleImage_scheme \<Rightarrow> TransitionCountingImage \<Rightarrow> TransitionCountingImage" where
  "resizeFor source this =
     (if width source \<noteq> width this \<or> height source \<noteq> height this then
        (let this1 = setSize (width source) (height source) this in
         this1\<lparr>nextExpected := replicate (length (data this1)) 0,
               txTimer := replicate (length (data this1)) 0\<rparr>)
      else this)"

text \<open>The body of the loop of \<^verbatim>\<open>update\<close> at index \<open>i\<close>.\<close>

definition updatePixel ::
  "'a GreyscaleImage_scheme \<Rightarrow> number \<Rightarrow> nat \<Rightarrow> TransitionCountingImage \<Rightarrow> TransitionCountingImage"
  where
  "updatePixel source maxInterval i this =
     (let srcPixel = readAt (data source) (int i);
          count = readAt (data this) (int i)
      in if count = Some 0 then
           (if srcPixel = Some 0 then
              this\<lparr>data := writeAt (data this) i (Num 1),
                   nextExpected := writeAt (nextExpected this) i (Num 255),
                   txTimer := writeAt (txTimer this) i (Num 0)\<rparr>
            else if srcPixel = Some 255 then
              this\<lparr>data := writeAt (data this) i (Num 1),
                   nextExpected := writeAt (nextExpected this) i (Num 0),
                   txTimer := writeAt (txTimer this) i (Num 0)\<rparr>
            else this)
         else
           (let this1 = this\<lparr>txTimer := writeAt (txTimer this) i
                               (num_add (ToNumber (readAt (txTimer this) (int i))) (Num 1))\<rparr>
            in if num_gt (ToNumber (readAt (txTimer this1) (int i))) maxInterval then
                 this1\<lparr>data := writeAt (data this1) i (Num 0)\<rparr>
               else if srcPixel = readAt (nextExpected this1) (int i) then
                 this1\<lparr>data := writeAt (data this1) i
                                 (num_add (ToNumber (readAt (data this1) (int i))) (Num 1)),
                       nextExpected := writeAt (nextExpected this1) i
                                 (num_sub (Num 255) (ToNumber (readAt (nextExpected this1) (int i)))),
                       txTimer := writeAt (txTimer this1) i (Num 0)\<rparr>
               else this1))"

definition update ::
  "'a GreyscaleImage_scheme \<Rightarrow> number \<Rightarrow> TransitionCountingImage \<Rightarrow> TransitionCountingImage"
  where
  "update source maxInterval this =
     (let this1 = resizeFor source this
      in forIndex (length (data this1)) (updatePixel source maxInterval) this1)"

text \<open>
  Successive calls of \<^verbatim>\<open>update\<close> on one counter: the final state, and the state after
  each call.
\<close>

fun updates ::
  "(GreyscaleImage \<times> number) list \<Rightarrow> TransitionCountingImage \<Rightarrow> TransitionCountingImage"
  where
  "updates [] this = this"
| "updates ((source, maxInterval) # calls) this = updates calls (update source maxInterval this)"

fun updateTrace ::
  "TransitionCountingImage \<Rightarrow> (GreyscaleImage \<times> number) list \<Rightarrow> TransitionCountingImage list"
  where
  "updateTrace this [] = []"
| "updateTrace this ((source, maxInterval) # calls) =
     update source maxInterval this # updateTrace (update source maxInterval this) calls"

section \<open>The tick of the pipeline\<close>

text \<open>
  The images of the pipeline are objects, and a method mutates the object it is called
  on. Objects live in a heap indexed by references, so that two variables may name one
  object; each image owns its array (arrays are only ever created by \<^verbatim>\<open>_setSize\<close>).
  The loops of \<^verbatim>\<open>updateFrom\<close> and \<^verbatim>\<open>subtract\<close> read index \<open>i\<close> of their argument
  before they write index \<open>i\<close>, so they compute the same on a snapshot of the argument
  even when it is the receiver itself. The counter is the one object of its class and
  is kept beside the heap; a reference not yet given out holds a new image. The calls
  of \<^verbatim>\<open>debugDraw\<close> assign no field and no element of an image (they fill a canvas of
  the page) and have no counterpart here.
\<close>

type_synonym ref = nat

record Pipeline =
  heap :: "ref \<Rightarrow> GreyscaleImage"
  diffImage :: ref
  highContrastDiffImage :: ref
  stateImage :: TransitionCountingImage
  waveMap :: ref
  filteredWaveMap :: ref
  isWaving :: string

definition invoke :: "ref \<Rightarrow> (GreyscaleImage \<Rightarrow> GreyscaleImage) \<Rightarrow> (ref \<Rightarrow> GreyscaleImage) \<Rightarrow> (ref \<Rightarrow> GreyscaleImage)" where
  "invoke this f h = h(this := f (h this))"

text \<open>
  The body of the timer callback once both frames exist; \<open>cameraImage\<close> and
  \<open>prevCameraImage\<close> are the references held by the two variables of that name.
\<close>

definition processFrames ::
  "number \<Rightarrow> number \<Rightarrow> number \<Rightarrow> number \<Rightarrow> ref \<Rightarrow> ref \<Rightarrow> Pipeline \<Rightarrow> Pipeline" where
  "processFrames contrastFactor maxInterval transitionCount outlierThreshold
                 cameraImage prevCameraImage p =
     (let h0 = heap p;
          h1 = invoke (diffImage p) (updateFrom (h0 cameraImage)) h0;
          h2 = invoke (diffImage p) (subtract (h1 prevCameraImage)) h1;
          h3 = invoke (highContrastDiffImage p) (updateFrom (h2 (diffImage p))) h2;
          h4 = invoke (highContrastDiffImage p) (increaseContrast contrastFactor) h3;
          st = update (h4 (highContrastDiffImage p)) maxInterval (stateImage p);
          h5 = invoke (waveMap p) (updateFrom st) h4;
          h6 = invoke (waveMap p) (toBinary transitionCount) h5;
          h7 = invoke (filteredWaveMap p) (updateFrom (h6 (waveMap p))) h6;
          h8 = invoke (waveMap p) (discardOutliers outlierThreshold) h7
      in p\<lparr>heap := h8, stateImage := st,
            isWaving := (if num_gt (pixelSum (h8 (waveMap p))) (Num 0) then ''YES!'' else ''Nope'')\<rparr>)"

text \<open>
  The page: the pipeline, the two variables \<^verbatim>\<open>cameraImage\<close> and \<^verbatim>\<open>prevCameraImage\<close> of
  the closure (\<open>None\<close> while \<^verbatim>\<open>undefined\<close>), and the number of objects created so far.
  \<^verbatim>\<open>onload\<close> creates the five objects of the pipeline in the order of the source; what
  the element \<^verbatim>\<open>is-waving\<close> shows at first comes from the page.
\<close>

record Page =
  pipeline :: Pipeline
  cameraImageVar :: "ref option"
  prevCameraImageVar :: "ref option"
  allocated :: nat

definition onload :: "string \<Rightarrow> Page" where
  "onload shown =
     \<lparr>pipeline =
        \<lparr>heap = (\<lambda>r. newGreyscaleImage),
         diffImage = 0, highContrastDiffImage = 1,
         stateImage = newTransitionCountingImage,
         waveMap = 2, filteredWaveMap = 3, isWaving = shown\<rparr>,
      cameraImageVar = None, prevCameraImageVar = None, allocated = 4\<rparr>"

text \<open>
  \<^verbatim>\<open>CameraInput.getGreyscaleImage\<close> draws the video onto its canvas, creates a new image
  and has it read the canvas; the canvas after drawing is given as \<open>context\<close>.
\<close>

definition getGreyscaleImage :: "CanvasRenderingContext2D \<Rightarrow> Page \<Rightarrow> ref \<times> Page" where
  "getGreyscaleImage context page =
     (let image = allocated page;
          p = pipeline page
      in (image,
          page\<lparr>pipeline := p\<lparr>heap := (heap p)(image := read context newGreyscaleImage)\<rparr>,
               allocated := Suc image\<rparr>))"

text \<open>
  The timer callback. The four parameters are what the input elements hold when the
  callback runs.
\<close>

definition tick ::
  "number \<Rightarrow> number \<Rightarrow> number \<Rightarrow> number \<Rightarrow> CanvasRenderingContext2D \<Rightarrow> Page \<Rightarrow> Page" where
  "tick contrastFactor maxInterval transitionCount outlierThreshold context page =
     (let page1 = page\<lparr>prevCameraImageVar := cameraImageVar page\<rparr>;
          (image, page2) = getGreyscaleImage context page1;
          page3 = page2\<lparr>cameraImageVar := Some image\<rparr>
      in case (cameraImageVar page3, prevCameraImageVar page3) of
           (Some c, Some q) \<Rightarrow>
             page3\<lparr>pipeline := processFrames contrastFactor maxInterval transitionCount
                                  outlierThreshold c q (pipeline page3)\<rparr>
         | _ \<Rightarrow> page3)"

fun ticks ::
  "(number \<times> number \<times> number \<times> number \<times> CanvasRenderingContext2D) list \<Rightarrow> Page \<Rightarrow> Page" where
  "ticks [] page = page"
| "ticks ((contrastFactor, maxInterval, transitionCount, outlierThreshold, context) # rest) page =
     ticks rest (tick contrastFactor maxInterval transitionCount outlierThreshold context page)"

section \<open>Auxiliary notions\<close>

text \<open>An image whose array has one sample per pixel, and a counter whose three arrays agree in length.\<close>

definition wellFormed :: "'a GreyscaleImage_scheme \<Rightarrow> bool" where
  "wellFormed this \<longleftrightarrow> length (data this) = width this * height this"

definition arraysAligned :: "TransitionCountingImage \<Rightarrow> bool" where
  "arraysAligned this \<longleftrightarrow>
     length (nextExpected this) = length (data this) \<and> length (txTimer this) = length (data this)"

text \<open>The all-zero image that \<^verbatim>\<open>_setSize\<close> produces from a new object.\<close>

definition zeroFrame :: "nat \<Rightarrow> nat \<Rightarrow> GreyscaleImage" where
  "zeroFrame w h = setSize w h newGreyscaleImage"

text \<open>
  The three values the counter keeps for pixel \<open>i\<close>, and the effect of one pass of the
  loop body of \<^verbatim>\<open>update\<close> on them: \<open>incrementedTimer\<close> is \<^verbatim>\<open>txTimer[i] += 1\<close> and
  \<open>stale\<close> the test \<^verbatim>\<open>txTimer[i] > maxInterval\<close> that follows it.
\<close>

definition pixelOf :: "nat \<Rightarrow> TransitionCountingImage \<Rightarrow> u8 \<times> u8 \<times> u8" where
  "pixelOf i this = (data this ! i, nextExpected this ! i, txTimer this ! i)"

definition incrementedTimer :: "u8 \<Rightarrow> u8" where
  "incrementedTimer timer = ToUint8Clamp (num_add (ToNumber (Some timer)) (Num 1))"

definition stale :: "u8 \<Rightarrow> number \<Rightarrow> bool" where
  "stale timer maxInterval = num_gt (ToNumber (Some (incrementedTimer timer))) maxInterval"

definition pixelStep :: "u8 option \<Rightarrow> number \<Rightarrow> u8 \<times> u8 \<times> u8 \<Rightarrow> u8 \<times> u8 \<times> u8" where
  "pixelStep srcPixel maxInterval p =
     (case p of (count, expected, timer) \<Rightarrow>
        if count = 0 then
          (if srcPixel = Some 0 then (ToUint8Clamp (Num 1), ToUint8Clamp (Num 255), ToUint8Clamp (Num 0))
           else if srcPixel = Some 255 then (ToUint8Clamp (Num 1), ToUint8Clamp (Num 0), ToUint8Clamp (Num 0))
           else p)
        else if stale timer maxInterval then (ToUint8Clamp (Num 0), expected, incrementedTimer timer)
        else if srcPixel = Some expected then
          (ToUint8Clamp (num_add (ToNumber (Some count)) (Num 1)),
           ToUint8Clamp (num_sub (Num 255) (ToNumber (Some expected))),
           ToUint8Clamp (Num 0))
        else (count, expected, incrementedTimer timer))"

fun pixelTrace :: "u8 \<times> u8 \<times> u8 \<Rightarrow> (u8 option \<times> number) list \<Rightarrow> (u8 \<times> u8 \<times> u8) list" where
  "pixelTrace p [] = []"
| "pixelTrace p ((srcPixel, maxInterval) # inputs) =
     pixelStep srcPixel maxInterval p # pixelTrace (pixelStep srcPixel maxInterval p) inputs"

text \<open>A frame of a single pixel, for concrete runs.\<close>

definition onePixel :: "u8 \<Rightarrow> GreyscaleImage" where
  "onePixel v = \<lparr>data = [v], width = 1, height = 1\<rparr>"

text \<open>What holds of every counter reached from a new one by calls of \<^verbatim>\<open>update\<close>.\<close>

definition counterInvariant :: "TransitionCountingImage \<Rightarrow> bool" where
  "counterInvariant t \<longleftrightarrow>
     arraysAligned t \<and>
     (\<forall>i < length (data t). data t ! i \<noteq> 0 \<longrightarrow> nextExpected t ! i = 0 \<or> nextExpected t ! i = 255)"

text \<open>A counter of one active pixel whose timer has reached the top of its range.\<close>

definition saturatedPixel :: TransitionCountingImage where
  "saturatedPixel = \<lparr>data = [1], width = 1, height = 1, nextExpected = [255], txTimer = [255]\<rparr>"

text \<open>A frame of two pixels, neither of them an extremum.\<close>

definition widePair :: GreyscaleImage where
  "widePair = \<lparr>data = [128, 128], width = 2, height = 1\<rparr>"

text \<open>A canvas of one pixel with the channels R = 1, G = 1, B = 0.\<close>

definition darkPixelContext :: CanvasRenderingContext2D where
  "darkPixelContext = \<lparr>canvasWidth = 1, canvasHeight = 1, imageData = [1, 1, 0, 255]\<rparr>"

text \<open>
  Three frames for the neighbourhood filter: one white pixel in the middle of a 3 by 3
  frame, a 3 by 3 frame that is white throughout, and a white 3 by 3 block in the middle
  of a 5 by 5 frame.
\<close>

definition centreDot :: GreyscaleImage where
  "centreDot = \<lparr>data = [0, 0, 0, 0, 255, 0, 0, 0, 0], width = 3, height = 3\<rparr>"

definition solidBlock :: GreyscaleImage where
  "solidBlock = \<lparr>data = [255, 255, 255, 255, 255, 255, 255, 255, 255], width = 3, height = 3\<rparr>"

definition framedBlock :: GreyscaleImage where
  "framedBlock = \<lparr>data = [0, 0, 0, 0, 0,
                            0, 255, 255, 255, 0,
                            0, 255, 255, 255, 0,
                            0, 255, 255, 255, 0,
                            0, 0, 0, 0, 0], width = 5, height = 5\<rparr>"

text \<open>
  The references of the four working images, and the image \<^verbatim>\<open>updateFrom\<close> makes of its
  argument in a new object.
\<close>

definition buffers :: "Pipeline \<Rightarrow> ref set" where
  "buffers p = {diffImage p, highContrastDiffImage p, waveMap p, filteredWaveMap p}"

definition copyOf :: "'b GreyscaleImage_scheme \<Rightarrow> GreyscaleImage" where
  "copyOf source = updateFrom source newGreyscaleImage"

text \<open>
  What holds of the page whenever the callback runs: the working images are the first
  four objects, well formed, and the camera frames are objects created later.
\<close>

definition pageInvariant :: "Page \<Rightarrow> bool" where
  "pageInvariant page \<longleftrightarrow>
     diffImage (pipeline page) = 0 \<and> highContrastDiffImage (pipeline page) = 1
     \<and> waveMap (pipeline page) = 2 \<and> filteredWaveMap (pipeline page) = 3
     \<and> 4 \<le> allocated page
     \<and> (\<forall>c. cameraImageVar page = Some c \<longrightarrow> 4 \<le> c \<and> c < allocated page)
     \<and> (\<forall>q. prevCameraImageVar page = Some q \<longrightarrow> 4 \<le> q \<and> q < allocated page)
     \<and> (\<forall>b \<in> {0, 1, 2, 3}. wellFormed (heap (pipeline page) b))"

text \<open>
  A one-pixel canvas of grey level \<open>v\<close>, and the page after two ticks that saw \<open>v\<close> and
  then 100.
\<close>

definition greyCanvas :: "u8 \<Rightarrow> CanvasRenderingContext2D" where
  "greyCanvas v = \<lparr>canvasWidth = 1, canvasHeight = 1, imageData = [v, v, v, 255]\<rparr>"

text \<open>The same canvas with alpha 0: another canvas from which the same frame is read.\<close>

definition clearCanvas :: "u8 \<Rightarrow> CanvasRenderingContext2D" where
  "clearCanvas v = \<lparr>canvasWidth = 1, canvasHeight = 1, imageData = [v, v, v, 0]\<rparr>"

definition pageAfter :: "u8 \<Rightarrow> Page" where
  "pageAfter v =
     ticks [(Num 2, Num 10, Num 1, Num (1 / 2), greyCanvas v),
            (Num 2, Num 10, Num 1, Num (1 / 2), greyCanvas 100)] (onload ''Nope'')"

section \<open>Loops over a clamped array\<close>

lemma forIndex_0: "forIndex 0 body s = s"
  by (simp add: forIndex_def)

lemma forIndex_Suc: "forIndex (Suc n) body s = body n (forIndex n body s)"
  by (simp add: forIndex_def)

lemma readAt_nat: "i < length a \<Longrightarrow> readAt a (int i) = Some (a ! i)"
  by (simp add: readAt_def)

lemma readAt_beyond: "int (length a) \<le> i \<Longrightarrow> readAt a i = None"
  by (simp add: readAt_def)

lemma readAt_negative: "i < 0 \<Longrightarrow> readAt a i = None"
  by (simp add: readAt_def)

lemma length_writeAt: "length (writeAt a i v) = length a"
  by (simp add: writeAt_def)

lemma nth_writeAt_eq: "i < length a \<Longrightarrow> writeAt a i v ! i = ToUint8Clamp v"
  by (simp add: writeAt_def)

lemma nth_writeAt_neq: "i \<noteq> j \<Longrightarrow> writeAt a i v ! j = a ! j"
  by (simp add: writeAt_def)

lemma length_forIndex_writeAt:
  "length (forIndex n (\<lambda>i d. writeAt d i (F i d)) d) = length d"
  by (induction n) (simp_all add: forIndex_0 forIndex_Suc length_writeAt)

lemma forIndex_writeAt_above:
  "n \<le> j \<Longrightarrow> forIndex n (\<lambda>i d. writeAt d i (F i d)) d ! j = d ! j"
  by (induction n) (simp_all add: forIndex_0 forIndex_Suc nth_writeAt_neq)

lemma forIndex_writeAt_nth:
  "j < n \<Longrightarrow> n \<le> length d \<Longrightarrow>
   forIndex n (\<lambda>i d. writeAt d i (F i d)) d ! j
     = ToUint8Clamp (F j (forIndex j (\<lambda>i d. writeAt d i (F i d)) d))"
proof (induction n)
  case 0
  then show ?case by simp
next
  case (Suc n)
  show ?case
  proof (cases "j = n")
    case True
    with Suc.prems show ?thesis
      by (simp add: forIndex_Suc nth_writeAt_eq length_forIndex_writeAt)
  next
    case False
    with Suc show ?thesis
      by (simp add: forIndex_Suc nth_writeAt_neq)
  qed
qed

lemma ToUint8Clamp_int:
  assumes "0 \<le> k" "k \<le> 255"
  shows "ToUint8Clamp (Num (of_int k)) = word_of_int k"
proof (cases "k = 0 \<or> k = 255")
  case True
  then show ?thesis by (auto simp: ToUint8Clamp_def)
next
  case False
  with assms have "0 < k" "k < 255" by auto
  then show ?thesis by (simp add: ToUint8Clamp_def Let_def)
qed

lemma ToUint8Clamp_high: "255 \<le> x \<Longrightarrow> ToUint8Clamp (Num x) = 255"
  by (simp add: ToUint8Clamp_def)

lemma ToUint8Clamp_low: "x \<le> 0 \<Longrightarrow> ToUint8Clamp (Num x) = 0"
  by (simp add: ToUint8Clamp_def)

lemma ToUint8Clamp_NaN: "ToUint8Clamp NaN = 0"
  by (simp add: ToUint8Clamp_def)

lemma uint_u8_le: "uint (b :: u8) \<le> 255"
  using uint_bounded [of b] by simp

section \<open>The counter, pixel by pixel\<close>

lemma updatePixel_shape:
  "length (data (updatePixel src m i t)) = length (data t)
   \<and> length (nextExpected (updatePixel src m i t)) = length (nextExpected t)
   \<and> length (txTimer (updatePixel src m i t)) = length (txTimer t)
   \<and> width (updatePixel src m i t) = width t
   \<and> height (updatePixel src m i t) = height t"
  by (simp add: updatePixel_def Let_def length_writeAt)

lemma updatePixel_other:
  "j \<noteq> i \<Longrightarrow> pixelOf j (updatePixel src m i t) = pixelOf j t"
  by (simp add: updatePixel_def pixelOf_def Let_def nth_writeAt_neq)

lemma updatePixel_pixel:
  assumes "arraysAligned t" and "i < length (data t)"
  shows "pixelOf i (updatePixel src m i t) = pixelStep (readAt (data src) (int i)) m (pixelOf i t)"
  using assms
  by (simp add: updatePixel_def pixelStep_def pixelOf_def Let_def arraysAligned_def
      stale_def incrementedTimer_def readAt_nat nth_writeAt_eq length_writeAt)


lemma updatePixel_aligned: "arraysAligned t \<Longrightarrow> arraysAligned (updatePixel src m i t)"
  by (simp add: arraysAligned_def updatePixel_shape)

lemma forIndex_updatePixel:
  assumes "arraysAligned t" and "n \<le> length (data t)"
  shows "arraysAligned (forIndex n (updatePixel src m) t)
         \<and> length (data (forIndex n (updatePixel src m) t)) = length (data t)
         \<and> width (forIndex n (updatePixel src m) t) = width t
         \<and> height (forIndex n (updatePixel src m) t) = height t
         \<and> (\<forall>j. pixelOf j (forIndex n (updatePixel src m) t)
                = (if j < n then pixelStep (readAt (data src) (int j)) m (pixelOf j t)
                   else pixelOf j t))"
  using assms(2)
proof (induction n)
  case 0
  with assms(1) show ?case by (simp add: forIndex_0)
next
  case (Suc n)
  let ?t = "forIndex n (updatePixel src m) t"
  from Suc have ih: "arraysAligned ?t" "length (data ?t) = length (data t)"
    "width ?t = width t" "height ?t = height t"
    "\<And>j. pixelOf j ?t = (if j < n then pixelStep (readAt (data src) (int j)) m (pixelOf j t)
                          else pixelOf j t)"
    by simp_all
  from Suc.prems ih(2) have n: "n < length (data ?t)" by simp
  have here: "pixelOf n (updatePixel src m n ?t) = pixelStep (readAt (data src) (int n)) m (pixelOf n t)"
    using updatePixel_pixel [OF ih(1) n] ih(5) [of n] by simp
  have other: "\<And>j. j \<noteq> n \<Longrightarrow> pixelOf j (updatePixel src m n ?t) = pixelOf j ?t"
    by (rule updatePixel_other)
  have pix: "pixelOf j (updatePixel src m n ?t)
              = (if j < Suc n then pixelStep (readAt (data src) (int j)) m (pixelOf j t)
                 else pixelOf j t)" for j
  proof (cases "j = n")
    case True
    with here show ?thesis by simp
  next
    case False
    with other [of j] ih(5) [of j] show ?thesis by (simp add: less_Suc_eq)
  qed
  show ?case
    using ih(1-4) pix
    by (simp add: forIndex_Suc updatePixel_aligned updatePixel_shape)
qed

lemma resizeFor_same:
  "width src = width t \<Longrightarrow> height src = height t \<Longrightarrow> resizeFor src t = t"
  by (simp add: resizeFor_def)

lemma resizeFor_aligned: "arraysAligned t \<Longrightarrow> arraysAligned (resizeFor src t)"
  by (simp add: resizeFor_def arraysAligned_def Let_def)

lemma resizeFor_dims: "width (resizeFor src t) = width src \<and> height (resizeFor src t) = height src"
  by (simp add: resizeFor_def setSize_def Let_def)

lemma resizeFor_fresh:
  assumes "width src \<noteq> width t \<or> height src \<noteq> height t"
  shows "data (resizeFor src t) = replicate (width src * height src) 0"
    and "nextExpected (resizeFor src t) = replicate (width src * height src) 0"
    and "txTimer (resizeFor src t) = replicate (width src * height src) 0"
  using assms by (auto simp: resizeFor_def setSize_def Let_def)

lemma update_shape:
  assumes "arraysAligned t"
  shows "arraysAligned (update src m t)"
    and "length (data (update src m t)) = length (data (resizeFor src t))"
    and "width (update src m t) = width src"
    and "height (update src m t) = height src"
  using forIndex_updatePixel [OF resizeFor_aligned [OF assms] order_refl, of src src m]
  by (simp_all add: update_def Let_def resizeFor_dims)

lemma update_pixel:
  assumes "arraysAligned t" and "i < length (data (resizeFor src t))"
  shows "pixelOf i (update src m t)
         = pixelStep (readAt (data src) (int i)) m (pixelOf i (resizeFor src t))"
  using forIndex_updatePixel [OF resizeFor_aligned [OF assms(1)] order_refl, of src src m] assms(2)
  by (simp add: update_def Let_def)

lemma update_resizeFor: "update src m (resizeFor src t) = update src m t"
  by (simp add: update_def resizeFor_same resizeFor_dims)

lemma updateTrace_pixel:
  assumes "arraysAligned t"
    and "\<forall>(src, m) \<in> set calls. width src = width t \<and> height src = height t"
    and "i < length (data t)"
  shows "map (pixelOf i) (updateTrace t calls)
         = pixelTrace (pixelOf i t) (map (\<lambda>(src, m). (readAt (data src) (int i), m)) calls)"
  using assms
proof (induction calls arbitrary: t)
  case Nil
  then show ?case by simp
next
  case (Cons c calls)
  obtain src m where c: "c = (src, m)" by (cases c)
  from Cons.prems c have same: "resizeFor src t = t"
    by (simp add: resizeFor_same)
  have step: "pixelOf i (update src m t) = pixelStep (readAt (data src) (int i)) m (pixelOf i t)"
    using update_pixel [OF Cons.prems(1), of i src m] Cons.prems(3) same by simp
  have shape: "arraysAligned (update src m t)" "length (data (update src m t)) = length (data t)"
    "width (update src m t) = width t" "height (update src m t) = height t"
    using update_shape [OF Cons.prems(1), of src m] same Cons.prems(2) c by simp_all
  have "map (pixelOf i) (updateTrace (update src m t) calls)
        = pixelTrace (pixelOf i (update src m t))
            (map (\<lambda>(src, m). (readAt (data src) (int i), m)) calls)"
    using Cons.prems shape by (intro Cons.IH) simp_all
  with step c show ?case by simp
qed

lemma updateTrace_new_pixel:
  assumes "\<forall>(src, m) \<in> set calls. width src = w \<and> height src = h"
    and "i < w * h"
  shows "map (pixelOf i) (updateTrace newTransitionCountingImage calls)
         = pixelTrace (0, 0, 0) (map (\<lambda>(src, m). (readAt (data src) (int i), m)) calls)"
proof (cases calls)
  case Nil
  then show ?thesis by simp
next
  case (Cons c cs)
  obtain src m where c: "c = (src, m)" by (cases c)
  let ?t = "resizeFor src newTransitionCountingImage"
  from assms Cons c have dims: "width src = w" "height src = h" by simp_all
  from assms(2) have "w \<noteq> 0" by (cases w) simp_all
  with dims have differ: "width src \<noteq> width newTransitionCountingImage
                          \<or> height src \<noteq> height newTransitionCountingImage"
    by (simp add: newTransitionCountingImage_def)
  have aligned: "arraysAligned ?t"
    by (rule resizeFor_aligned) (simp add: arraysAligned_def newTransitionCountingImage_def)
  have len: "length (data ?t) = w * h"
    using resizeFor_fresh(1) [OF differ] dims by simp
  have zero: "pixelOf i ?t = (0, 0, 0)"
    using resizeFor_fresh [OF differ] dims assms(2) by (simp add: pixelOf_def)
  have "updateTrace newTransitionCountingImage calls = updateTrace ?t calls"
    using Cons c by (simp add: update_resizeFor)
  moreover have "map (pixelOf i) (updateTrace ?t calls)
        = pixelTrace (pixelOf i ?t) (map (\<lambda>(src, m). (readAt (data src) (int i), m)) calls)"
    using aligned assms len by (intro updateTrace_pixel) (simp_all add: resizeFor_dims dims)
  ultimately show ?thesis using zero by simp
qed

section \<open>Runs of the counter on one pixel\<close>

text \<open>
  C4. A pixel whose input over five successive calls of \<^verbatim>\<open>update\<close> with
  \<open>maxInterval = 10\<close> is 0, 255, 0, 255, 0 has count 1, 2, 3, 4, 5 after the respective
  call. The counter starts as constructed; the frames may have any common size and the
  pixel any position \<open>i\<close> in them.
\<close>

theorem count_progression:
  assumes "\<forall>f \<in> set frames. width f = w \<and> height f = h"
    and "i < w * h"
    and "map (\<lambda>f. readAt (data f) (int i)) frames = [Some 0, Some 255, Some 0, Some 255, Some 0]"
  shows "map (\<lambda>t. data t ! i) (updateTrace newTransitionCountingImage (map (\<lambda>f. (f, Num 10)) frames))
         = [1, 2, 3, 4, 5]"
proof -
  let ?calls = "map (\<lambda>f. (f, Num 10)) frames"
  have "map (pixelOf i) (updateTrace newTransitionCountingImage ?calls)
        = pixelTrace (0, 0, 0) (map (\<lambda>(src, m). (readAt (data src) (int i), m)) ?calls)"
    using assms(1,2) by (intro updateTrace_new_pixel [where w = w and h = h]) auto
  also have "map (\<lambda>(src, m). (readAt (data src) (int i), m)) ?calls
        = map (\<lambda>v. (v, Num 10)) (map (\<lambda>f. readAt (data f) (int i)) frames)"
    by (simp add: comp_def)
  also have "pixelTrace (0, 0, 0) (map (\<lambda>v. (v, Num 10)) (map (\<lambda>f. readAt (data f) (int i)) frames))
        = [(1, 255, 0), (2, 0, 0), (3, 255, 0), (4, 0, 0), (5, 255, 0)]"
    unfolding assms(3)
    by (simp add: pixelStep_def stale_def incrementedTimer_def ToNumber_def ToUint8Clamp_def)
  finally have "map fst (map (pixelOf i) (updateTrace newTransitionCountingImage ?calls))
        = [1, 2, 3, 4, 5]"
    by simp
  then show ?thesis by (simp add: comp_def pixelOf_def)
qed

theorem count_progression_witness:
  "list_all (\<lambda>f. width f = 1 \<and> height f = 1) (map onePixel [0, 255, 0, 255, 0])
   \<and> (0::nat) < 1 * 1
   \<and> map (\<lambda>f. readAt (data f) (int 0)) (map onePixel [0, 255, 0, 255, 0])
       = [Some 0, Some 255, Some 0, Some 255, Some 0]
   \<and> map (\<lambda>t. data t ! 0)
        (updateTrace newTransitionCountingImage
           (map (\<lambda>f. (f, Num 10)) (map onePixel [0, 255, 0, 255, 0])))
       = [1, 2, 3, 4, 5]"
proof -
  have a: "\<forall>f \<in> set (map onePixel [0, 255, 0, 255, 0]). width f = 1 \<and> height f = 1"
    by (simp add: onePixel_def)
  have b: "(0::nat) < 1 * 1" by simp
  have c: "map (\<lambda>f. readAt (data f) (int 0)) (map onePixel [0, 255, 0, 255, 0])
       = [Some 0, Some 255, Some 0, Some 255, Some 0]"
    by (simp add: onePixel_def readAt_def)
  have a': "list_all (\<lambda>f. width f = 1 \<and> height f = 1) (map onePixel [0, 255, 0, 255, 0])"
    by (simp add: onePixel_def)
  from a' b c count_progression [OF a b c] show ?thesis by blast
qed

text \<open>
  C3. A pixel whose input with \<open>maxInterval = 10\<close> is 0 once, then 0 for eleven more
  ticks, then 255: the count stays 1 through the first ten ticks of the gap, the eleventh
  resets it to 0 through the staleness test, and the tick that delivers 255 makes it 1
  again.
\<close>

theorem stale_reset_then_reentry:
  assumes "\<forall>f \<in> set frames. width f = w \<and> height f = h"
    and "i < w * h"
    and "map (\<lambda>f. readAt (data f) (int i)) frames = Some 0 # replicate 11 (Some 0) @ [Some 255]"
  shows "map (\<lambda>t. data t ! i) (updateTrace newTransitionCountingImage (map (\<lambda>f. (f, Num 10)) frames))
         = replicate 11 1 @ [0, 1]"
proof -
  have gap: "replicate 11 (Some (0::u8))
             = [Some 0, Some 0, Some 0, Some 0, Some 0, Some 0, Some 0, Some 0, Some 0, Some 0, Some 0]"
    by (simp add: numeral_eq_Suc)
  have ones: "replicate 11 (1::u8) = [1, 1, 1, 1, 1, 1, 1, 1, 1, 1, 1]"
    by (simp add: numeral_eq_Suc)
  let ?calls = "map (\<lambda>f. (f, Num 10)) frames"
  have "map (pixelOf i) (updateTrace newTransitionCountingImage ?calls)
        = pixelTrace (0, 0, 0) (map (\<lambda>(src, m). (readAt (data src) (int i), m)) ?calls)"
    using assms(1,2) by (intro updateTrace_new_pixel [where w = w and h = h]) auto
  also have "map (\<lambda>(src, m). (readAt (data src) (int i), m)) ?calls
        = map (\<lambda>v. (v, Num 10)) (map (\<lambda>f. readAt (data f) (int i)) frames)"
    by (simp add: comp_def)
  also have "pixelTrace (0, 0, 0) (map (\<lambda>v. (v, Num 10)) (map (\<lambda>f. readAt (data f) (int i)) frames))
        = [(1, 255, 0), (1, 255, 1), (1, 255, 2), (1, 255, 3), (1, 255, 4), (1, 255, 5),
           (1, 255, 6), (1, 255, 7), (1, 255, 8), (1, 255, 9), (1, 255, 10), (0, 255, 11),
           (1, 0, 0)]"
    unfolding assms(3) gap
    by (simp add: pixelStep_def stale_def incrementedTimer_def ToNumber_def ToUint8Clamp_def)
  finally have "map fst (map (pixelOf i) (updateTrace newTransitionCountingImage ?calls))
        = replicate 11 1 @ [0, 1]"
    by (simp add: ones)
  then show ?thesis by (simp add: comp_def pixelOf_def)
qed

theorem stale_reset_then_reentry_witness:
  "list_all (\<lambda>f. width f = 1 \<and> height f = 1) (map onePixel [0, 0, 0, 0, 0, 0, 0, 0, 0, 0, 0, 0, 255])
   \<and> (0::nat) < 1 * 1
   \<and> map (\<lambda>f. readAt (data f) (int 0)) (map onePixel [0, 0, 0, 0, 0, 0, 0, 0, 0, 0, 0, 0, 255])
       = Some 0 # replicate 11 (Some 0) @ [Some 255]
   \<and> map (\<lambda>t. data t ! 0)
        (updateTrace newTransitionCountingImage
           (map (\<lambda>f. (f, Num 10)) (map onePixel [0, 0, 0, 0, 0, 0, 0, 0, 0, 0, 0, 0, 255])))
       = replicate 11 1 @ [0, 1]"
proof -
  have a: "\<forall>f \<in> set (map onePixel [0, 0, 0, 0, 0, 0, 0, 0, 0, 0, 0, 0, 255]). width f = 1 \<and> height f = 1"
    by (simp add: onePixel_def)
  have b: "(0::nat) < 1 * 1" by simp
  have c: "map (\<lambda>f. readAt (data f) (int 0)) (map onePixel [0, 0, 0, 0, 0, 0, 0, 0, 0, 0, 0, 0, 255])
       = Some 0 # replicate 11 (Some 0) @ [Some 255]"
    by (simp add: onePixel_def readAt_def numeral_eq_Suc)
  have a': "list_all (\<lambda>f. width f = 1 \<and> height f = 1) (map onePixel [0, 0, 0, 0, 0, 0, 0, 0, 0, 0, 0, 0, 255])"
    by (simp add: onePixel_def)
  from a' b c stale_reset_then_reentry [OF a b c] show ?thesis by blast
qed

section \<open>Invariants of the counter\<close>

lemma uint_word_of_int_u8: "0 \<le> k \<Longrightarrow> k \<le> 255 \<Longrightarrow> uint (word_of_int k :: u8) = k"
  by (simp add: uint_word_of_int_eq take_bit_int_eq_self)

lemma uint_ToUint8Clamp_int:
  "0 \<le> k \<Longrightarrow> k \<le> 255 \<Longrightarrow> uint (ToUint8Clamp (Num (of_int k))) = k"
  by (simp add: ToUint8Clamp_int uint_word_of_int_u8)

lemma ToUint8Clamp_consts:
  "ToUint8Clamp (Num 0) = 0" "ToUint8Clamp (Num 1) = 1" "ToUint8Clamp (Num 255) = 255"
  by (simp_all add: ToUint8Clamp_def)

lemma ToNumber_Some: "ToNumber (Some b) = Num (of_int (uint b))"
  by (simp add: ToNumber_def)

lemma uint_incremented:
  "uint (ToUint8Clamp (num_add (ToNumber (Some c)) (Num 1))) = min 255 (uint c + 1)"
proof (cases "uint c = 255")
  case True
  then show ?thesis by (simp add: ToNumber_def ToUint8Clamp_high)
next
  case False
  with uint_u8_le [of c] have le: "uint c + 1 \<le> 255" by simp
  have "num_add (ToNumber (Some c)) (Num 1) = Num (of_int (uint c + 1))"
    by (simp add: ToNumber_def)
  with le show ?thesis by (simp add: uint_ToUint8Clamp_int del: of_int_add)
qed

lemma never_stale:
  assumes "num_ge maxInterval (Num 255)"
  shows "\<not> stale timer maxInterval"
proof -
  from assms obtain x where x: "maxInterval = Num x" "255 \<le> x"
    by (cases maxInterval) simp_all
  have "uint (incrementedTimer timer) \<le> 255" by (rule uint_u8_le)
  then have "real_of_int (uint (incrementedTimer timer)) \<le> 255" by linarith
  with x show ?thesis by (simp add: stale_def ToNumber_def)
qed

lemma pixelStep_count_mono:
  assumes "\<not> stale timer maxInterval"
  shows "uint count \<le> uint (fst (pixelStep srcPixel maxInterval (count, expected, timer)))"
proof (cases "count = 0")
  case True
  then show ?thesis by simp
next
  case False
  with assms show ?thesis
    by (simp add: pixelStep_def uint_incremented uint_u8_le)
qed

lemma pixelStep_extremum:
  assumes "count \<noteq> 0 \<longrightarrow> expected = 0 \<or> expected = 255"
    and "pixelStep srcPixel maxInterval (count, expected, timer) = (count', expected', timer')"
    and "count' \<noteq> 0"
  shows "expected' = 0 \<or> expected' = 255"
  using assms
  by (auto simp: pixelStep_def ToUint8Clamp_consts ToNumber_def ToUint8Clamp_def split: if_splits)

lemma pixelStep_accepted:
  assumes "count \<noteq> 0" and "\<not> stale timer maxInterval"
  shows "pixelStep (Some expected) maxInterval (count, expected, timer)
         = (ToUint8Clamp (num_add (ToNumber (Some count)) (Num 1)),
            ToUint8Clamp (num_sub (Num 255) (ToNumber (Some expected))), 0)"
  using assms by (simp add: pixelStep_def ToUint8Clamp_consts)

lemma counterInvariant_new: "counterInvariant newTransitionCountingImage"
  by (simp add: counterInvariant_def arraysAligned_def newTransitionCountingImage_def)

lemma counterInvariant_resizeFor:
  assumes "counterInvariant t"
  shows "counterInvariant (resizeFor src t)"
proof (cases "width src \<noteq> width t \<or> height src \<noteq> height t")
  case True
  from assms have "arraysAligned (resizeFor src t)"
    by (simp add: counterInvariant_def resizeFor_aligned)
  then show ?thesis
    using resizeFor_fresh(1) [OF True] by (simp add: counterInvariant_def)
next
  case False
  with assms show ?thesis by (simp add: resizeFor_same)
qed

lemma counterInvariant_update:
  assumes "counterInvariant t"
  shows "counterInvariant (update src m t)"
proof -
  let ?r = "resizeFor src t" and ?u = "update src m t"
  have r: "counterInvariant ?r" by (rule counterInvariant_resizeFor [OF assms])
  from assms have al: "arraysAligned t" by (simp add: counterInvariant_def)
  have len: "length (data ?u) = length (data ?r)" by (rule update_shape(2) [OF al])
  have "nextExpected ?u ! i = 0 \<or> nextExpected ?u ! i = 255"
    if i: "i < length (data ?u)" and active: "data ?u ! i \<noteq> 0" for i
  proof -
    from i len have i': "i < length (data ?r)" by simp
    have step: "pixelStep (readAt (data src) (int i)) m (data ?r ! i, nextExpected ?r ! i, txTimer ?r ! i)
          = (data ?u ! i, nextExpected ?u ! i, txTimer ?u ! i)"
      using update_pixel [OF al i', of m] by (simp add: pixelOf_def)
    from r i' have "data ?r ! i \<noteq> 0 \<longrightarrow> nextExpected ?r ! i = 0 \<or> nextExpected ?r ! i = 255"
      by (simp add: counterInvariant_def)
    from pixelStep_extremum [OF this step active] show ?thesis .
  qed
  with update_shape(1) [OF al, of src m] show ?thesis
    by (simp add: counterInvariant_def)
qed

lemma counterInvariant_updates:
  "counterInvariant t \<Longrightarrow> counterInvariant (updates calls t)"
  by (induction calls arbitrary: t) (auto simp: counterInvariant_update)

lemma update_accepted:
  assumes "arraysAligned t"
    and "j < length (data (resizeFor src t))"
    and "data (resizeFor src t) ! j \<noteq> 0"
    and "\<not> stale (txTimer (resizeFor src t) ! j) m"
    and "readAt (data src) (int j) = Some (nextExpected (resizeFor src t) ! j)"
  shows "txTimer (update src m t) ! j = 0"
proof -
  let ?r = "resizeFor src t"
  have "pixelOf j (update src m t)
        = pixelStep (Some (nextExpected ?r ! j)) m (data ?r ! j, nextExpected ?r ! j, txTimer ?r ! j)"
    using update_pixel [OF assms(1,2), of m] assms(5) by (simp add: pixelOf_def)
  also note pixelStep_accepted [OF assms(3,4)]
  finally show ?thesis by (simp add: pixelOf_def)
qed

lemma run_two_zeros:
  "updates [(onePixel 0, Num 10), (onePixel 0, Num 10)] newTransitionCountingImage
   = \<lparr>data = [1], width = 1, height = 1, nextExpected = [255], txTimer = [1]\<rparr>"
  by code_simp

lemma update_count_mono:
  assumes "arraysAligned t" and "num_ge m (Num 255)" and "i < length (data (resizeFor src t))"
  shows "uint (data (resizeFor src t) ! i) \<le> uint (data (update src m t) ! i)"
proof -
  let ?r = "resizeFor src t"
  have eq: "pixelOf i (update src m t) = pixelStep (readAt (data src) (int i)) m (pixelOf i ?r)"
    by (rule update_pixel [OF assms(1,3)])
  have "data (update src m t) ! i = fst (pixelOf i (update src m t))"
    by (simp add: pixelOf_def)
  also have "\<dots> = fst (pixelStep (readAt (data src) (int i)) m
                        (data ?r ! i, nextExpected ?r ! i, txTimer ?r ! i))"
    unfolding eq by (simp add: pixelOf_def)
  finally have "data (update src m t) ! i
        = fst (pixelStep (readAt (data src) (int i)) m (data ?r ! i, nextExpected ?r ! i, txTimer ?r ! i))" .
  with pixelStep_count_mono [OF never_stale [OF assms(2)]] show ?thesis by simp
qed

lemma updates_count_mono:
  assumes "arraysAligned t"
    and "\<forall>(source, maxInterval) \<in> set calls.
           width source = width t \<and> height source = height t \<and> num_ge maxInterval (Num 255)"
    and "i < length (data t)"
  shows "uint (data t ! i) \<le> uint (data (updates calls t) ! i)"
  using assms
proof (induction calls arbitrary: t)
  case Nil
  then show ?case by simp
next
  case (Cons c calls)
  obtain src m where c: "c = (src, m)" by (cases c)
  from Cons.prems c have same: "resizeFor src t = t" and m: "num_ge m (Num 255)"
    by (simp_all add: resizeFor_same)
  have shape: "arraysAligned (update src m t)" "length (data (update src m t)) = length (data t)"
    "width (update src m t) = width t" "height (update src m t) = height t"
    using update_shape [OF Cons.prems(1), of src m] same Cons.prems(2) c by simp_all
  have "uint (data t ! i) \<le> uint (data (update src m t) ! i)"
    using update_count_mono [OF Cons.prems(1) m, of i src] same Cons.prems(3) by simp
  also have "\<dots> \<le> uint (data (updates calls (update src m t)) ! i)"
    using Cons.prems shape by (intro Cons.IH) simp_all
  finally show ?case using c by simp
qed

text \<open>
  C7. After any sequence of calls of \<^verbatim>\<open>update\<close> on a new counter, every pixel with a
  count above 0 has \<open>nextExpected\<close> equal to 0 or to 255. And in any further call, a
  pixel that enters the loop active, whose incremented timer does not exceed
  \<open>maxInterval\<close> and whose input equals \<open>nextExpected\<close>, leaves the call with its timer
  at 0. Here \<open>t1\<close> is the counter as the loop finds it, after the reallocation that a
  change of dimensions causes.
\<close>

theorem nextExpected_extremum_and_timer_reset:
  assumes "t = updates calls newTransitionCountingImage"
    and "t1 = resizeFor source t"
  shows "(i < length (data t) \<and> data t ! i \<noteq> 0
            \<longrightarrow> nextExpected t ! i = 0 \<or> nextExpected t ! i = 255)
       \<and> (j < length (data t1) \<and> data t1 ! j \<noteq> 0 \<and> \<not> stale (txTimer t1 ! j) maxInterval
            \<and> readAt (data source) (int j) = Some (nextExpected t1 ! j)
            \<longrightarrow> txTimer (update source maxInterval t) ! j = 0)"
proof -
  have inv: "counterInvariant t"
    unfolding assms(1) by (rule counterInvariant_updates [OF counterInvariant_new])
  then have al: "arraysAligned t" by (simp add: counterInvariant_def)
  from inv have first: "i < length (data t) \<and> data t ! i \<noteq> 0
            \<longrightarrow> nextExpected t ! i = 0 \<or> nextExpected t ! i = 255"
    by (simp add: counterInvariant_def)
  have second: "j < length (data t1) \<and> data t1 ! j \<noteq> 0 \<and> \<not> stale (txTimer t1 ! j) maxInterval
            \<and> readAt (data source) (int j) = Some (nextExpected t1 ! j)
            \<longrightarrow> txTimer (update source maxInterval t) ! j = 0"
    unfolding assms(2) using update_accepted [OF al] by blast
  from first second show ?thesis ..
qed


theorem nextExpected_extremum_and_timer_reset_witness:
  "data (updates [(onePixel 0, Num 10), (onePixel 0, Num 10)] newTransitionCountingImage) ! 0 = 1
   \<and> nextExpected (updates [(onePixel 0, Num 10), (onePixel 0, Num 10)] newTransitionCountingImage) ! 0 = 255
   \<and> txTimer (updates [(onePixel 0, Num 10), (onePixel 0, Num 10)] newTransitionCountingImage) ! 0 = 1
   \<and> \<not> stale 1 (Num 10)
   \<and> readAt (data (onePixel 255)) (int 0) = Some 255
   \<and> txTimer (update (onePixel 255) (Num 10)
        (updates [(onePixel 0, Num 10), (onePixel 0, Num 10)] newTransitionCountingImage)) ! 0 = 0"
proof -
  let ?t = "updates [(onePixel 0, Num 10), (onePixel 0, Num 10)] newTransitionCountingImage"
  have same: "resizeFor (onePixel 255) ?t = ?t"
    unfolding run_two_zeros by (simp add: resizeFor_def onePixel_def)
  have fresh: "\<not> stale 1 (Num 10)"
    by (simp add: stale_def incrementedTimer_def ToNumber_def ToUint8Clamp_def)
  have src: "readAt (data (onePixel 255)) (int 0) = Some 255"
    by (simp add: onePixel_def readAt_def)
  from nextExpected_extremum_and_timer_reset [OF refl same [symmetric], of 0 0 "Num 10"] fresh src
  show ?thesis unfolding run_two_zeros by simp
qed

lemma updates_append: "updates (xs @ ys) t = updates ys (updates xs t)"
  by (induction xs arbitrary: t) auto

lemma updates_take_Suc:
  assumes "k < length calls"
  shows "updates (take (Suc k) calls) t
         = update (fst (calls ! k)) (snd (calls ! k)) (updates (take k calls) t)"
proof -
  have one: "updates [c] s = update (fst c) (snd c) s" for c s
    by (cases c) simp
  from assms show ?thesis
    by (simp add: take_Suc_conv_app_nth updates_append one)
qed

lemma arraysAligned_updates: "arraysAligned t \<Longrightarrow> arraysAligned (updates calls t)"
  by (induction calls arbitrary: t) (auto simp: update_shape(1))

text \<open>
  C9 (as amended). With every \<open>maxInterval\<close> at least 255 the staleness test fails for
  every value of the timer, which saturates at 255. So in every call of any sequence of
  calls, whatever the frames' dimensions, no pixel leaves the call with a count below
  the one the loop found (the counter after the reallocation that a change of dimensions
  causes); and over a sequence of calls on frames of the counter's dimensions the count
  of a pixel never decreases and an active pixel stays active.
\<close>

theorem staleness_never_resets_count:
  assumes "arraysAligned t"
    and "\<forall>(source, maxInterval) \<in> set calls. num_ge maxInterval (Num 255)"
  shows "(\<forall>(source, maxInterval) \<in> set calls. \<forall>timer. \<not> stale timer maxInterval)
       \<and> (\<forall>k < length calls.
             \<forall>i < length (data (resizeFor (fst (calls ! k)) (updates (take k calls) t))).
               uint (data (resizeFor (fst (calls ! k)) (updates (take k calls) t)) ! i)
               \<le> uint (data (updates (take (Suc k) calls) t) ! i))
       \<and> ((\<forall>(source, maxInterval) \<in> set calls. width source = width t \<and> height source = height t)
            \<longrightarrow> (\<forall>i < length (data t).
                  uint (data t ! i) \<le> uint (data (updates calls t) ! i)
                  \<and> (data t ! i \<noteq> 0 \<longrightarrow> data (updates calls t) ! i \<noteq> 0)))"
proof -
  have a: "\<forall>(source, maxInterval) \<in> set calls. \<forall>timer. \<not> stale timer maxInterval"
    using assms(2) never_stale by fastforce
  have b: "uint (data (resizeFor (fst (calls ! k)) (updates (take k calls) t)) ! i)
           \<le> uint (data (updates (take (Suc k) calls) t) ! i)"
    if k: "k < length calls"
      and i: "i < length (data (resizeFor (fst (calls ! k)) (updates (take k calls) t)))" for k i
  proof -
    from k have "calls ! k \<in> set calls" by simp
    with assms(2) have m: "num_ge (snd (calls ! k)) (Num 255)" by (auto simp: split_beta)
    show ?thesis
      unfolding updates_take_Suc [OF k]
      by (rule update_count_mono [OF arraysAligned_updates [OF assms(1)] m i])
  qed
  have c: "uint (data t ! i) \<le> uint (data (updates calls t) ! i)
           \<and> (data t ! i \<noteq> 0 \<longrightarrow> data (updates calls t) ! i \<noteq> 0)"
    if same: "\<forall>(source, maxInterval) \<in> set calls. width source = width t \<and> height source = height t"
      and i: "i < length (data t)" for i
  proof -
    from same assms(2) have "\<forall>(source, maxInterval) \<in> set calls.
           width source = width t \<and> height source = height t \<and> num_ge maxInterval (Num 255)"
      by auto
    from updates_count_mono [OF assms(1) this i]
    have le: "uint (data t ! i) \<le> uint (data (updates calls t) ! i)" .
    have "data (updates calls t) ! i \<noteq> 0" if "data t ! i \<noteq> 0"
    proof -
      from that have "uint (data t ! i) \<noteq> 0" by (simp add: uint_0_iff)
      moreover have "0 \<le> uint (data t ! i)" by simp
      ultimately have "0 < uint (data (updates calls t) ! i)" using le by linarith
      then show ?thesis by auto
    qed
    with le show ?thesis by simp
  qed
  from a b c show ?thesis by blast
qed

theorem staleness_never_resets_count_witness:
  "arraysAligned saturatedPixel
   \<and> list_all (\<lambda>(source, maxInterval). num_ge maxInterval (Num 255))
        [(onePixel 0, Num 255), (onePixel 0, Num 255)]
   \<and> list_all (\<lambda>(source, maxInterval). width source = width saturatedPixel
         \<and> height source = height saturatedPixel)
        [(onePixel 0, Num 255), (onePixel 0, Num 255)]
   \<and> \<not> stale 255 (Num 255)
   \<and> uint (data (resizeFor (fst ([(onePixel 0, Num 255), (onePixel 0, Num 255)] ! 1))
               (updates (take 1 [(onePixel 0, Num 255), (onePixel 0, Num 255)]) saturatedPixel)) ! 0)
       \<le> uint (data (updates (take (Suc 1) [(onePixel 0, Num 255), (onePixel 0, Num 255)])
               saturatedPixel) ! 0)
   \<and> uint (data saturatedPixel ! 0) \<le>
       uint (data (updates [(onePixel 0, Num 255), (onePixel 0, Num 255)] saturatedPixel) ! 0)
   \<and> data (updates [(onePixel 0, Num 255), (onePixel 0, Num 255)] saturatedPixel) ! 0 \<noteq> 0"
proof -
  let ?calls = "[(onePixel 0, Num 255), (onePixel 0, Num 255)]"
  have a: "arraysAligned saturatedPixel"
    by (simp add: arraysAligned_def saturatedPixel_def)
  have b: "\<forall>(source, maxInterval) \<in> set ?calls. num_ge maxInterval (Num 255)"
    by simp
  have b': "list_all (\<lambda>(source, maxInterval). num_ge maxInterval (Num 255)) ?calls"
    by simp
  have c: "\<forall>(source, maxInterval) \<in> set ?calls.
             width source = width saturatedPixel \<and> height source = height saturatedPixel"
    by (simp add: onePixel_def saturatedPixel_def)
  have c': "list_all (\<lambda>(source, maxInterval). width source = width saturatedPixel
             \<and> height source = height saturatedPixel) ?calls"
    by (simp add: onePixel_def saturatedPixel_def)
  have d: "(0::nat) < length (data saturatedPixel)" "data saturatedPixel ! 0 \<noteq> 0"
    by (simp_all add: saturatedPixel_def)
  have e: "(1::nat) < length ?calls" by simp
  have f: "0 < length (data (resizeFor (fst (?calls ! 1)) (updates (take 1 ?calls) saturatedPixel)))"
    by code_simp
  note inst = staleness_never_resets_count [OF a b]
  from inst have g: "\<not> stale 255 (Num 255)" by simp
  from inst e f have h:
    "uint (data (resizeFor (fst (?calls ! 1)) (updates (take 1 ?calls) saturatedPixel)) ! 0)
     \<le> uint (data (updates (take (Suc 1) ?calls) saturatedPixel) ! 0)"
    by blast
  from inst c d have i:
    "uint (data saturatedPixel ! 0) \<le> uint (data (updates ?calls saturatedPixel) ! 0)"
    "data (updates ?calls saturatedPixel) ! 0 \<noteq> 0"
    by blast+
  from a b' c' g h i show ?thesis by blast
qed

text \<open>
  The claim as stated, that the count can only grow or stay constant under any sequence
  of calls, fails when a frame of other dimensions arrives: an active pixel of a counter
  of one pixel has count 0 after a call on a frame of two pixels, with \<open>maxInterval\<close> 255
  in both calls.
\<close>

theorem resize_drops_count:
  "num_ge (Num 255) (Num 255)
   \<and> data (updates [(onePixel 0, Num 255)] newTransitionCountingImage) = [1]
   \<and> data (updates [(onePixel 0, Num 255), (widePair, Num 255)] newTransitionCountingImage) = [0, 0]"
  by code_simp

section \<open>The pixel-wise operations of GreyscaleImage\<close>

lemma forIndex_writeAt_own:
  assumes "j < length d"
    and "\<And>d'. length d' = length d \<Longrightarrow> d' ! j = d ! j \<Longrightarrow> F j d' = F j d"
  shows "forIndex (length d) (\<lambda>i d. writeAt d i (F i d)) d ! j = ToUint8Clamp (F j d)"
proof -
  let ?d = "forIndex j (\<lambda>i d. writeAt d i (F i d)) d"
  have "F j ?d = F j d"
    by (rule assms(2)) (simp_all add: length_forIndex_writeAt forIndex_writeAt_above)
  with forIndex_writeAt_nth [OF assms(1) order_refl, of F] show ?thesis by simp
qed

lemma data_zeroFrame: "data (zeroFrame w h) = replicate (w * h) 0"
  by (simp add: zeroFrame_def setSize_def newGreyscaleImage_def)

lemma subtract_nth:
  assumes "i < length (data this)"
  shows "data (subtract other this) ! i
         = ToUint8Clamp (num_add (num_sub (ToNumber (Some (data this ! i)))
                                          (ToNumber (readAt (data other) (int i))))
                                 (Num 128))"
proof -
  have "data (subtract other this) ! i
        = ToUint8Clamp (num_add (num_sub (ToNumber (readAt (data this) (int i)))
                                         (ToNumber (readAt (data other) (int i))))
                                (Num 128))"
    unfolding subtract_def
    by (simp, rule forIndex_writeAt_own [OF assms]) (simp add: readAt_def)
  with assms show ?thesis by (simp add: readAt_nat)
qed

lemma length_subtract: "length (data (subtract other this)) = length (data this)"
  by (simp add: subtract_def length_forIndex_writeAt)

lemma uint_plus_128:
  "uint (ToUint8Clamp (Num (of_int (uint b) - 0 + 128))) = min 255 (uint b + 128)"
proof (cases "127 \<le> uint b")
  case True
  then have "255 \<le> real_of_int (uint b) - 0 + 128" by linarith
  then have "ToUint8Clamp (Num (real_of_int (uint b) - 0 + 128)) = 255"
    by (rule ToUint8Clamp_high)
  with True show ?thesis by simp
next
  case False
  then have le: "0 \<le> uint b + 128" "uint b + 128 \<le> 255" by simp_all
  have "real_of_int (uint b) - 0 + 128 = of_int (uint b + 128)" by linarith
  with uint_ToUint8Clamp_int [OF le] le show ?thesis by (simp only: min_def split: if_splits) simp
qed

lemma setSize_shape: "width (setSize w h this) = w \<and> height (setSize w h this) = h"
  by (simp add: setSize_def)

lemma wellFormed_setSize: "wellFormed this \<Longrightarrow> wellFormed (setSize w h this)"
  by (auto simp: setSize_def wellFormed_def)

lemma round_third:
  assumes "0 \<le> s" and "s \<le> 765"
  shows "uint (ToUint8Clamp (Num (of_int s / 3))) = (s + 1) div 3"
proof -
  define q where "q = s div 3"
  have s: "s = 3 * q + s mod 3" by (simp add: q_def)
  from assms have q: "0 \<le> q" "q \<le> 255" by (simp_all add: q_def)
  consider "s mod 3 = 0" | "s mod 3 = 1" | "s mod 3 = 2"
    by (smt (verit) pos_mod_bound pos_mod_sign)
  then show ?thesis
  proof cases
    case 1
    with s have eq: "s = 3 * q" by simp
    then have "real_of_int s / 3 = of_int q" by simp
    with q eq show ?thesis by (simp add: uint_ToUint8Clamp_int)
  next
    case 2
    with s have eq: "s = 3 * q + 1" by simp
    with assms q have q': "q \<le> 254" by simp
    from eq have x: "real_of_int s / 3 = of_int q + 1 / 3" by simp
    have fl: "\<lfloor>real_of_int q + 1 / 3\<rfloor> = q" by (simp add: floor_eq_iff)
    from q have pos: "\<not> real_of_int q + 1 / 3 \<le> 0" by linarith
    from q' have high: "\<not> 255 \<le> real_of_int q + 1 / 3" by linarith
    have "ToUint8Clamp (Num (real_of_int q + 1 / 3)) = word_of_int q"
      using pos high fl by (simp add: ToUint8Clamp_def Let_def)
    then have "uint (ToUint8Clamp (Num (real_of_int s / 3))) = uint (word_of_int q :: u8)"
      unfolding x by simp
    moreover from eq have "(s + 1) div 3 = q" by simp
    ultimately show ?thesis using q by (simp only: uint_word_of_int_u8)
  next
    case 3
    with s have eq: "s = 3 * q + 2" by simp
    with assms q have q': "q \<le> 254" by simp
    from eq have x: "real_of_int s / 3 = of_int q + 2 / 3" by simp
    have fl: "\<lfloor>real_of_int q + 2 / 3\<rfloor> = q" by (simp add: floor_eq_iff)
    from q have pos: "\<not> real_of_int q + 2 / 3 \<le> 0" by linarith
    from q' have high: "\<not> 255 \<le> real_of_int q + 2 / 3" by linarith
    have "ToUint8Clamp (Num (real_of_int q + 2 / 3)) = word_of_int (q + 1)"
      using pos high fl by (simp add: ToUint8Clamp_def Let_def)
    then have "uint (ToUint8Clamp (Num (real_of_int s / 3))) = uint (word_of_int (q + 1) :: u8)"
      unfolding x by simp
    moreover from eq have "(s + 1) div 3 = q + 1" by simp
    moreover from q q' have "0 \<le> q + 1" "q + 1 \<le> 255" by simp_all
    ultimately show ?thesis by (simp only: uint_word_of_int_u8)
  qed
qed

lemma read_nth:
  assumes "i < length (data (setSize (canvasWidth context) (canvasHeight context) this))"
  shows "data (read context this) ! i
         = ToUint8Clamp
             (num_div
                (num_add
                   (num_add (ToNumber (readAt (imageData context) (int i * 4)))
                            (ToNumber (readAt (imageData context) (int i * 4 + 1))))
                   (ToNumber (readAt (imageData context) (int i * 4 + 2))))
                (Num 3))"
  unfolding read_def Let_def
  by (simp, rule forIndex_writeAt_own [OF assms]) simp

lemma read_shape:
  assumes "wellFormed this"
  shows "width (read context this) = canvasWidth context"
    and "height (read context this) = canvasHeight context"
    and "length (data (read context this)) = canvasWidth context * canvasHeight context"
  using wellFormed_setSize [OF assms, of "canvasWidth context" "canvasHeight context"]
  by (simp_all add: read_def Let_def setSize_shape length_forIndex_writeAt wellFormed_def)

lemma toBinary_nth:
  assumes "i < length (data this)"
  shows "data (toBinary whiteThreshold this) ! i
         = ToUint8Clamp
             (num_add (ToNumber (Some (data this ! i)))
                (num_mul (num_add (num_sub (ToNumber (Some (data this ! i))) whiteThreshold) (Num 1))
                   (Num 255)))"
proof -
  have "data (toBinary whiteThreshold this) ! i
         = ToUint8Clamp
             (num_add (ToNumber (readAt (data this) (int i)))
                (num_mul (num_add (num_sub (ToNumber (readAt (data this) (int i))) whiteThreshold) (Num 1))
                   (Num 255)))"
    unfolding toBinary_def
    by (simp, rule forIndex_writeAt_own [OF assms]) (simp add: readAt_def)
  with assms show ?thesis by (simp add: readAt_nat)
qed

text \<open>What \<^verbatim>\<open>toBinary\<close> computes for an integer threshold.\<close>

lemma toBinary_integer_threshold:
  assumes "i < length (data this)"
  shows "uint (data (toBinary (Num (of_int k)) this) ! i)
         = (if k \<le> uint (data this ! i) then 255
            else if uint (data this ! i) = k - 1 then uint (data this ! i)
            else 0)"
proof -
  let ?d = "uint (data this ! i)"
  have d: "0 \<le> ?d" "?d \<le> 255" by (simp_all add: uint_u8_le)
  have val: "data (toBinary (Num (of_int k)) this) ! i
        = ToUint8Clamp (Num (of_int (?d + (?d - k + 1) * 255)))"
    unfolding toBinary_nth [OF assms] by (simp add: ToNumber_def)
  consider "k \<le> ?d" | "?d = k - 1" | "?d < k - 1" by linarith
  then show ?thesis
  proof cases
    case 1
    then have "1 \<le> ?d - k + 1" by simp
    then have "255 \<le> (?d - k + 1) * 255" by simp
    with d have "255 \<le> ?d + (?d - k + 1) * 255" by linarith
    then have "255 \<le> real_of_int (?d + (?d - k + 1) * 255)" by linarith
    then have "ToUint8Clamp (Num (of_int (?d + (?d - k + 1) * 255))) = 255"
      by (rule ToUint8Clamp_high)
    with val 1 show ?thesis by simp
  next
    case 2
    then have "?d + (?d - k + 1) * 255 = ?d" by simp
    then have "data (toBinary (Num (of_int k)) this) ! i = ToUint8Clamp (Num (of_int ?d))"
      by (simp only: val)
    then have "uint (data (toBinary (Num (of_int k)) this) ! i) = ?d"
      using d by (simp only: uint_ToUint8Clamp_int)
    with 2 show ?thesis by simp
  next
    case 3
    then have "?d - k + 1 \<le> - 1" by simp
    then have "(?d - k + 1) * 255 \<le> - 255" by simp
    with d have "?d + (?d - k + 1) * 255 \<le> 0" by linarith
    then have "real_of_int (?d + (?d - k + 1) * 255) \<le> 0" by linarith
    then have "ToUint8Clamp (Num (of_int (?d + (?d - k + 1) * 255))) = 0"
      by (rule ToUint8Clamp_low)
    with val 3 show ?thesis by simp
  qed
qed

text \<open>
  C5 (as amended). For a well-formed frame \<open>A\<close> and any frame \<open>B\<close>, subtracting the
  all-zero frame of the dimensions of \<open>A\<close> from \<open>subtract(A, B)\<close> raises every sample by
  128, saturating at 255: sample \<open>i\<close> becomes \<open>min 255 (r + 128)\<close>, and it is left as it
  was exactly when it was 255 already.
\<close>

theorem subtract_zero_adds_128:
  assumes "wellFormed A"
    and "i < length (data A)"
  shows "uint (data (subtract (zeroFrame (width A) (height A)) (subtract B A)) ! i)
           = min 255 (uint (data (subtract B A) ! i) + 128)
       \<and> (data (subtract (zeroFrame (width A) (height A)) (subtract B A)) ! i = data (subtract B A) ! i
            \<longleftrightarrow> data (subtract B A) ! i = 255)"
proof -
  let ?r = "subtract B A" and ?z = "zeroFrame (width A) (height A)"
  from assms have i: "i < length (data ?r)" "i < width A * height A"
    by (simp_all add: length_subtract wellFormed_def)
  then have z: "readAt (data ?z) (int i) = Some 0"
    by (simp add: data_zeroFrame readAt_nat)
  have "data (subtract ?z ?r) ! i
        = ToUint8Clamp (Num (of_int (uint (data ?r ! i)) - 0 + 128))"
    unfolding subtract_nth [OF i(1), of ?z] z by (simp add: ToNumber_def)
  then have eq: "uint (data (subtract ?z ?r) ! i) = min 255 (uint (data ?r ! i) + 128)"
    by (simp only: uint_plus_128)
  have "data (subtract ?z ?r) ! i = data ?r ! i \<longleftrightarrow> data ?r ! i = 255"
  proof
    assume "data (subtract ?z ?r) ! i = data ?r ! i"
    with eq have "uint (data ?r ! i) = min 255 (uint (data ?r ! i) + 128)" by simp
    then have "uint (data ?r ! i) = 255" by (simp add: min_def split: if_splits)
    then have "word_of_int (uint (data ?r ! i)) = (word_of_int 255 :: u8)" by simp
    then show "data ?r ! i = 255" by simp
  next
    assume "data ?r ! i = 255"
    with eq have "uint (data (subtract ?z ?r) ! i) = uint (data ?r ! i)" by simp
    then show "data (subtract ?z ?r) ! i = data ?r ! i" by (simp add: word_uint_eq_iff)
  qed
  with eq show ?thesis by simp
qed

theorem subtract_zero_adds_128_witness:
  "wellFormed (onePixel 0) \<and> (0::nat) < length (data (onePixel 0))
   \<and> uint (data (subtract (zeroFrame (width (onePixel 0)) (height (onePixel 0)))
                  (subtract (onePixel 0) (onePixel 0))) ! 0)
       = min 255 (uint (data (subtract (onePixel 0) (onePixel 0)) ! 0) + 128)
   \<and> data (subtract (onePixel 0) (onePixel 0)) ! 0 = 128"
proof -
  have a: "wellFormed (onePixel 0)" by (simp add: wellFormed_def onePixel_def)
  have b: "(0::nat) < length (data (onePixel 0))" by (simp add: onePixel_def)
  have c: "data (subtract (onePixel 0) (onePixel 0)) ! 0 = 128"
    by (simp add: subtract_def onePixel_def forIndex_def writeAt_def readAt_def ToNumber_def
        ToUint8Clamp_def)
  from a b c subtract_zero_adds_128 [OF a b, of "onePixel 0"] show ?thesis by blast
qed

text \<open>
  The claim as stated, that the second subtraction leaves the result unchanged, fails
  for two equal one-pixel frames: their difference is 128, and subtracting zero gives 255.
\<close>

theorem subtract_zero_changes_result:
  "data (subtract (onePixel 0) (onePixel 0)) = [128]
   \<and> data (subtract (zeroFrame 1 1) (subtract (onePixel 0) (onePixel 0))) = [255]
   \<and> data (subtract (zeroFrame 1 1) (subtract (onePixel 0) (onePixel 0)))
       \<noteq> data (subtract (onePixel 0) (onePixel 0))"
  by (simp add: subtract_def onePixel_def zeroFrame_def setSize_def newGreyscaleImage_def
      forIndex_def writeAt_def readAt_def ToNumber_def ToUint8Clamp_def)

text \<open>
  C6 (as amended). \<^verbatim>\<open>read\<close> sets each sample to the average of the red, green and
  blue bytes of its pixel rounded to the nearest integer, \<open>(R + G + B + 1) div 3\<close>; the
  alpha byte is not read. The quotient is stored unrounded into the clamped array, whose
  conversion rounds to nearest.
\<close>

theorem read_rounds_average:
  assumes "wellFormed this"
    and "length (imageData context) = 4 * (canvasWidth context * canvasHeight context)"
    and "i < canvasWidth context * canvasHeight context"
  shows "uint (data (read context this) ! i)
         = (uint (imageData context ! (4 * i)) + uint (imageData context ! (4 * i + 1))
            + uint (imageData context ! (4 * i + 2)) + 1) div 3"
proof -
  let ?cp = "imageData context"
  let ?r = "uint (?cp ! (4 * i))" and ?g = "uint (?cp ! (4 * i + 1))" and ?b = "uint (?cp ! (4 * i + 2))"
  have len: "length (data (setSize (canvasWidth context) (canvasHeight context) this))
             = canvasWidth context * canvasHeight context"
    using wellFormed_setSize [OF assms(1), of "canvasWidth context" "canvasHeight context"]
    by (simp add: wellFormed_def setSize_shape)
  from assms(2,3) have inside: "4 * i < length ?cp" "4 * i + 1 < length ?cp" "4 * i + 2 < length ?cp"
    by simp_all
  have rd:
    "readAt ?cp (int i * 4) = Some (?cp ! (4 * i))"
    "readAt ?cp (int i * 4 + 1) = Some (?cp ! (4 * i + 1))"
    "readAt ?cp (int i * 4 + 2) = Some (?cp ! (4 * i + 2))"
    using readAt_nat [OF inside(1)] readAt_nat [OF inside(2)] readAt_nat [OF inside(3)]
    by (simp_all add: ac_simps)
  have "data (read context this) ! i = ToUint8Clamp (Num (of_int (?r + ?g + ?b) / 3))"
    using read_nth [of i "context" this] len assms(3) unfolding rd
    by (simp add: ToNumber_def)
  moreover have "0 \<le> ?r + ?g + ?b" by simp
  moreover have "?r + ?g + ?b \<le> 765"
    using uint_u8_le [of "?cp ! (4 * i)"] uint_u8_le [of "?cp ! (4 * i + 1)"]
      uint_u8_le [of "?cp ! (4 * i + 2)"] by linarith
  ultimately show ?thesis by (simp only: round_third)
qed

theorem read_rounds_average_witness:
  "wellFormed newGreyscaleImage
   \<and> length (imageData darkPixelContext) = 4 * (canvasWidth darkPixelContext * canvasHeight darkPixelContext)
   \<and> 0 < canvasWidth darkPixelContext * canvasHeight darkPixelContext
   \<and> uint (data (read darkPixelContext newGreyscaleImage) ! 0) = 1"
proof -
  have a: "wellFormed newGreyscaleImage"
    by (simp add: wellFormed_def newGreyscaleImage_def)
  have b: "length (imageData darkPixelContext)
           = 4 * (canvasWidth darkPixelContext * canvasHeight darkPixelContext)"
    by (simp add: darkPixelContext_def)
  have c: "0 < canvasWidth darkPixelContext * canvasHeight darkPixelContext"
    by (simp add: darkPixelContext_def)
  have "uint (data (read darkPixelContext newGreyscaleImage) ! 0) = 1"
    using read_rounds_average [OF a b c] by (simp add: darkPixelContext_def)
  with a b c show ?thesis by blast
qed

text \<open>
  The claim as stated takes the floor: for R = 1, G = 1, B = 0 the floor of 2/3 is 0,
  and the sample read is 1.
\<close>

theorem read_not_floor:
  "data (read darkPixelContext newGreyscaleImage) = [1]
   \<and> (uint (imageData darkPixelContext ! 0) + uint (imageData darkPixelContext ! 1)
        + uint (imageData darkPixelContext ! 2)) div 3 = 0"
  by (simp add: read_def darkPixelContext_def newGreyscaleImage_def setSize_def forIndex_def
      writeAt_def readAt_def ToNumber_def ToUint8Clamp_def)

text \<open>
  C1. The claim is that after \<^verbatim>\<open>toBinary\<close> every sample that was at least
  \<open>whiteThreshold\<close> is 255 and every other sample is 0. With the threshold 128 the
  samples 126 and 128 become 0 and 255, and the sample 127 stays 127: the factor
  \<open>d - whiteThreshold + 1\<close> is 0 for it.
\<close>

theorem toBinary_keeps_sample_below_threshold:
  "data (toBinary (Num 128) \<lparr>data = [126, 127, 128], width = 3, height = 1\<rparr>) = [0, 127, 255]"
  by (simp add: toBinary_def forIndex_def writeAt_def readAt_def ToNumber_def ToUint8Clamp_def
      upt_rec [of 0] upt_rec [of 1] upt_rec [of 2])

section \<open>The neighbourhood filter\<close>

lemma discardOutliers_nth:
  assumes "j < length (data this)"
  shows "data (discardOutliers outlierThreshold this) ! j
         = ToUint8Clamp
             (if num_ge (neighbourSum
                           (forIndex j
                              (\<lambda>i d. writeAt d i
                                 (if num_ge (neighbourSum d (int (width this)) (int i))
                                       (num_mul outlierThreshold (Num 255))
                                  then Num 255 else Num 0))
                              (data this))
                           (int (width this)) (int j))
                   (num_mul outlierThreshold (Num 255))
              then Num 255 else Num 0)"
  unfolding discardOutliers_def Let_def
  using forIndex_writeAt_nth [OF assms order_refl] by simp

lemma neighbourSum_above_row:
  "i - w - 1 < 0 \<Longrightarrow> neighbourSum d w i = NaN"
  by (simp add: neighbourSum_def readAt_negative ToNumber_def)

lemma neighbourSum_below_row:
  "int (length d) \<le> i + w \<Longrightarrow> neighbourSum d w i = NaN"
  by (simp add: neighbourSum_def readAt_beyond ToNumber_def)

lemma neighbourSum_inside:
  assumes "0 \<le> w" and "w + 1 \<le> i" and "i + w + 1 < int (length d)"
  shows "\<exists>x. neighbourSum d w i = Num x \<and> of_int (uint (d ! nat i)) \<le> x"
proof -
  have rd: "ToNumber (readAt d k) = Num (of_int (uint (d ! nat k)))"
    if "0 \<le> k" "k < int (length d)" for k
    using that by (simp add: readAt_def ToNumber_def del: of_int_uint)
  have nonneg: "0 \<le> real_of_int (uint (b :: u8))" for b by (simp del: of_int_uint)
  show ?thesis
    unfolding neighbourSum_def
    using assms nonneg
    by (simp add: rd add_nonneg_nonneg del: of_int_uint)
qed

text \<open>
  C10. After \<^verbatim>\<open>discardOutliers\<close> every pixel of the first row and every pixel of the last
  row is 0, whatever the frame held and whatever the threshold: the sum for a pixel of
  the first row reads index \<open>i - w - 1 < 0\<close>, the sum for a pixel of the last row reads
  index \<open>i + w\<close> beyond the array, either read is \<^verbatim>\<open>undefined\<close>, the sum is \<open>NaN\<close>, and
  the comparison fails. The frame is well formed, with at least one row; a pixel of a
  row is given by its column \<open>x\<close>.
\<close>

theorem border_rows_discarded:
  assumes "wellFormed this" and "x < width this" and "0 < height this"
  shows "data (discardOutliers outlierThreshold this) ! x = 0
       \<and> data (discardOutliers outlierThreshold this) ! ((height this - 1) * width this + x) = 0"
proof -
  let ?w = "width this" and ?h = "height this"
  let ?body = "\<lambda>i d. writeAt d i
                 (if num_ge (neighbourSum d (int ?w) (int i)) (num_mul outlierThreshold (Num 255))
                  then Num 255 else Num 0)"
  from assms have len: "length (data this) = ?w * ?h" by (simp add: wellFormed_def)
  obtain k where h: "?h = Suc k" using assms(3) by (cases ?h) simp_all
  have first: "x < length (data this)" using assms(2) len h by simp
  have last: "(?h - 1) * ?w + x < length (data this)" using assms(2) len h by simp
  have "neighbourSum (forIndex x ?body (data this)) (int ?w) (int x) = NaN"
    using assms(2) by (intro neighbourSum_above_row) simp
  then have a: "data (discardOutliers outlierThreshold this) ! x = 0"
    unfolding discardOutliers_nth [OF first] by (simp add: ToUint8Clamp_low)
  let ?j = "(?h - 1) * ?w + x"
  have "neighbourSum (forIndex ?j ?body (data this)) (int ?w) (int ?j) = NaN"
    by (rule neighbourSum_below_row) (simp add: length_forIndex_writeAt len h)
  then have b: "data (discardOutliers outlierThreshold this) ! ?j = 0"
    unfolding discardOutliers_nth [OF last] by (simp add: ToUint8Clamp_low)
  from a b show ?thesis ..
qed

theorem border_rows_discarded_witness:
  "wellFormed solidBlock \<and> 1 < width solidBlock \<and> 0 < height solidBlock
   \<and> data solidBlock ! 1 = 255 \<and> data solidBlock ! 7 = 255
   \<and> data (discardOutliers (Num (1 / 2)) solidBlock) ! 1 = 0
   \<and> data (discardOutliers (Num (1 / 2)) solidBlock) ! 7 = 0"
proof -
  have a: "wellFormed solidBlock" by (simp add: wellFormed_def solidBlock_def)
  have b: "1 < width solidBlock" by (simp add: solidBlock_def)
  have c: "0 < height solidBlock" by (simp add: solidBlock_def)
  have d: "data solidBlock ! 1 = 255" "data solidBlock ! 7 = 255" by (simp_all add: solidBlock_def)
  have e: "(height solidBlock - 1) * width solidBlock + 1 = 7" by (simp add: solidBlock_def)
  from border_rows_discarded [OF a b c, of "Num (1 / 2)"]
  have "data (discardOutliers (Num (1 / 2)) solidBlock) ! 1 = 0"
    "data (discardOutliers (Num (1 / 2)) solidBlock) ! 7 = 0"
    unfolding e by simp_all
  with a b c d show ?thesis by blast
qed

text \<open>
  C2 (as amended). With \<open>outlierThreshold = 0.5\<close>, a pixel that is 255 and whose nine
  neighbourhood indices \<open>j - w - 1, \<dots>, j + w + 1\<close> all lie inside the array is 255 after
  the filter, whatever its neighbours hold: the nine reads are numbers, and the pixel's
  own 255 already reaches the bound 127.5. So an isolated white pixel at such a place
  is kept, and so are the pixels of a solid white block at such places.
\<close>

theorem interior_white_pixel_kept:
  assumes "width this + 1 \<le> j" and "j + width this + 1 < length (data this)"
    and "data this ! j = 255"
  shows "data (discardOutliers (Num (1 / 2)) this) ! j = 255"
proof -
  let ?w = "width this"
  let ?body = "\<lambda>i d. writeAt d i
                 (if num_ge (neighbourSum d (int ?w) (int i)) (num_mul (Num (1 / 2)) (Num 255))
                  then Num 255 else Num 0)"
  let ?d = "forIndex j ?body (data this)"
  from assms(2) have j: "j < length (data this)" by simp
  have len: "length ?d = length (data this)" by (rule length_forIndex_writeAt)
  have own: "?d ! j = 255" using assms(3) by (simp add: forIndex_writeAt_above)
  obtain x where x: "neighbourSum ?d (int ?w) (int j) = Num x" "of_int (uint (?d ! nat (int j))) \<le> x"
    using neighbourSum_inside [of "int ?w" "int j" ?d] assms(1,2) len by auto
  from x(2) own have "255 \<le> x" by simp
  then have "num_ge (Num x) (num_mul (Num (1 / 2)) (Num 255))" by simp
  then show ?thesis
    unfolding discardOutliers_nth [OF j] x(1) by (simp add: ToUint8Clamp_high)
qed

theorem interior_white_pixel_kept_witness:
  "width framedBlock + 1 \<le> 6 \<and> 6 + width framedBlock + 1 < length (data framedBlock)
   \<and> data framedBlock ! 6 = 255
   \<and> data (discardOutliers (Num (1 / 2)) framedBlock) ! 6 = 255"
proof -
  have a: "width framedBlock + 1 \<le> 6" by (simp add: framedBlock_def)
  have b: "6 + width framedBlock + 1 < length (data framedBlock)" by (simp add: framedBlock_def)
  have c: "data framedBlock ! 6 = 255" by (simp add: framedBlock_def)
  from a b c interior_white_pixel_kept [OF a b c] show ?thesis by blast
qed

text \<open>
  The claim as stated fails twice on 3 by 3 frames: the single white pixel in the middle
  is still 255 after the filter, and of the frame that is white throughout only the
  middle pixel remains 255.
\<close>

theorem isolated_pixel_survives:
  "data centreDot = [0, 0, 0, 0, 255, 0, 0, 0, 0]
   \<and> data (discardOutliers (Num (1 / 2)) centreDot) ! 4 = 255
   \<and> data (discardOutliers (Num (1 / 2)) solidBlock) = [0, 0, 0, 0, 255, 0, 0, 0, 0]"
  by code_simp

section \<open>The tick: what it reads and what it writes\<close>

lemma updateFrom_shape:
  "width (updateFrom source this) = width source \<and> height (updateFrom source this) = height source"
  by (simp add: updateFrom_def Let_def setSize_shape)

lemma length_updateFrom:
  "wellFormed this \<Longrightarrow> length (data (updateFrom source this)) = width source * height source"
  using wellFormed_setSize [of this "width source" "height source"]
  by (simp add: updateFrom_def Let_def length_forIndex_writeAt wellFormed_def setSize_shape)

lemma updateFrom_nth:
  assumes "wellFormed this" and "i < width source * height source"
  shows "data (updateFrom source this) ! i = ToUint8Clamp (ToNumber (readAt (data source) (int i)))"
proof -
  have len: "length (data (setSize (width source) (height source) this)) = width source * height source"
    using wellFormed_setSize [OF assms(1), of "width source" "height source"]
    by (simp add: wellFormed_def setSize_shape)
  with assms(2) have i: "i < length (data (setSize (width source) (height source) this))" by simp
  show ?thesis
    unfolding updateFrom_def Let_def
    by (simp, rule forIndex_writeAt_own [OF i]) simp
qed

lemma updateFrom_determined:
  fixes this this' :: GreyscaleImage
  assumes "wellFormed this" and "wellFormed this'"
  shows "updateFrom source this = updateFrom source this'"
proof -
  have "data (updateFrom source this) = data (updateFrom source this')"
    by (rule nth_equalityI)
      (simp_all add: length_updateFrom assms updateFrom_nth)
  then show ?thesis
    using updateFrom_shape [of source this] updateFrom_shape [of source this']
    by (intro GreyscaleImage.equality) simp_all
qed

lemma updateFrom_copyOf:
  fixes this :: GreyscaleImage
  shows "wellFormed this \<Longrightarrow> updateFrom source this = copyOf source"
  unfolding copyOf_def
  by (rule updateFrom_determined) (simp_all add: wellFormed_def newGreyscaleImage_def)






lemma processFrames_refs:
  "diffImage (processFrames cf mi tc ot cam prev p) = diffImage p
   \<and> highContrastDiffImage (processFrames cf mi tc ot cam prev p) = highContrastDiffImage p
   \<and> waveMap (processFrames cf mi tc ot cam prev p) = waveMap p
   \<and> filteredWaveMap (processFrames cf mi tc ot cam prev p) = filteredWaveMap p"
  by (simp add: processFrames_def Let_def)

lemma processFrames_frame:
  "r \<notin> buffers p \<Longrightarrow> heap (processFrames cf mi tc ot cam prev p) r = heap p r"
  by (simp add: processFrames_def Let_def invoke_def buffers_def)

lemma processFrames_determined:
  assumes "cam \<notin> buffers p" and "prev \<notin> buffers p"
    and "distinct [diffImage p, highContrastDiffImage p, waveMap p, filteredWaveMap p]"
    and "wellFormed (heap p (diffImage p))" "wellFormed (heap p (highContrastDiffImage p))"
      "wellFormed (heap p (waveMap p))" "wellFormed (heap p (filteredWaveMap p))"
  shows "heap (processFrames cf mi tc ot cam prev p) (diffImage p)
           = subtract (heap p prev) (copyOf (heap p cam))"
    and "heap (processFrames cf mi tc ot cam prev p) (highContrastDiffImage p)
           = increaseContrast cf (copyOf (subtract (heap p prev) (copyOf (heap p cam))))"
    and "stateImage (processFrames cf mi tc ot cam prev p)
           = update (increaseContrast cf (copyOf (subtract (heap p prev) (copyOf (heap p cam)))))
               mi (stateImage p)"
    and "heap (processFrames cf mi tc ot cam prev p) (waveMap p)
           = discardOutliers ot (toBinary tc (copyOf
               (update (increaseContrast cf (copyOf (subtract (heap p prev) (copyOf (heap p cam)))))
                  mi (stateImage p))))"
    and "heap (processFrames cf mi tc ot cam prev p) (filteredWaveMap p)
           = copyOf (toBinary tc (copyOf
               (update (increaseContrast cf (copyOf (subtract (heap p prev) (copyOf (heap p cam)))))
                  mi (stateImage p))))"
    and "isWaving (processFrames cf mi tc ot cam prev p)
           = (if num_gt (pixelSum (discardOutliers ot (toBinary tc (copyOf
               (update (increaseContrast cf (copyOf (subtract (heap p prev) (copyOf (heap p cam)))))
                  mi (stateImage p)))))) (Num 0) then ''YES!'' else ''Nope'')"
proof -
  from assms(1-3) have neq:
    "cam \<noteq> diffImage p" "cam \<noteq> highContrastDiffImage p"
    "cam \<noteq> waveMap p" "cam \<noteq> filteredWaveMap p"
    "prev \<noteq> diffImage p" "prev \<noteq> highContrastDiffImage p"
    "prev \<noteq> waveMap p" "prev \<noteq> filteredWaveMap p"
    "diffImage p \<noteq> highContrastDiffImage p" "highContrastDiffImage p \<noteq> diffImage p"
    "diffImage p \<noteq> waveMap p" "waveMap p \<noteq> diffImage p"
    "diffImage p \<noteq> filteredWaveMap p" "filteredWaveMap p \<noteq> diffImage p"
    "highContrastDiffImage p \<noteq> waveMap p" "waveMap p \<noteq> highContrastDiffImage p"
    "highContrastDiffImage p \<noteq> filteredWaveMap p" "filteredWaveMap p \<noteq> highContrastDiffImage p"
    "waveMap p \<noteq> filteredWaveMap p" "filteredWaveMap p \<noteq> waveMap p"
    by (auto simp: buffers_def)
  note defs = processFrames_def Let_def invoke_def updateFrom_copyOf
  show "heap (processFrames cf mi tc ot cam prev p) (diffImage p)
           = subtract (heap p prev) (copyOf (heap p cam))"
    using neq assms(4-7) by (simp add: defs)
  show "heap (processFrames cf mi tc ot cam prev p) (highContrastDiffImage p)
           = increaseContrast cf (copyOf (subtract (heap p prev) (copyOf (heap p cam))))"
    using neq assms(4-7) by (simp add: defs)
  show "stateImage (processFrames cf mi tc ot cam prev p)
           = update (increaseContrast cf (copyOf (subtract (heap p prev) (copyOf (heap p cam)))))
               mi (stateImage p)"
    using neq assms(4-7) by (simp add: defs)
  show "heap (processFrames cf mi tc ot cam prev p) (waveMap p)
           = discardOutliers ot (toBinary tc (copyOf
               (update (increaseContrast cf (copyOf (subtract (heap p prev) (copyOf (heap p cam)))))
                  mi (stateImage p))))"
    using neq assms(4-7) by (simp add: defs)
  show "heap (processFrames cf mi tc ot cam prev p) (filteredWaveMap p)
           = copyOf (toBinary tc (copyOf
               (update (increaseContrast cf (copyOf (subtract (heap p prev) (copyOf (heap p cam)))))
                  mi (stateImage p))))"
    using neq assms(4-7) by (simp add: defs)
  show "isWaving (processFrames cf mi tc ot cam prev p)
           = (if num_gt (pixelSum (discardOutliers ot (toBinary tc (copyOf
               (update (increaseContrast cf (copyOf (subtract (heap p prev) (copyOf (heap p cam)))))
                  mi (stateImage p)))))) (Num 0) then ''YES!'' else ''Nope'')"
    using neq assms(4-7) by (simp add: defs)
qed








lemma wellFormed_copyOf: "wellFormed (copyOf source)"
  using length_updateFrom [of newGreyscaleImage source] updateFrom_shape [of source newGreyscaleImage]
  by (simp add: copyOf_def wellFormed_def newGreyscaleImage_def)

lemma wellFormed_pixelwise:
  "wellFormed (subtract other this) = wellFormed this"
  "wellFormed (increaseContrast factor this) = wellFormed this"
  "wellFormed (toBinary whiteThreshold this) = wellFormed this"
  "wellFormed (discardOutliers outlierThreshold this) = wellFormed this"
  by (simp_all add: wellFormed_def subtract_def increaseContrast_def toBinary_def
      discardOutliers_def Let_def length_forIndex_writeAt)

text \<open>The working buffers are well formed again after the tick.\<close>

lemma processFrames_keeps_wellFormed:
  assumes "cam \<notin> buffers p" and "prev \<notin> buffers p"
    and "distinct [diffImage p, highContrastDiffImage p, waveMap p, filteredWaveMap p]"
    and "wellFormed (heap p (diffImage p))" "wellFormed (heap p (highContrastDiffImage p))"
      "wellFormed (heap p (waveMap p))" "wellFormed (heap p (filteredWaveMap p))"
  shows "wellFormed (heap (processFrames cf mi tc ot cam prev p) (diffImage p))"
    and "wellFormed (heap (processFrames cf mi tc ot cam prev p) (highContrastDiffImage p))"
    and "wellFormed (heap (processFrames cf mi tc ot cam prev p) (waveMap p))"
    and "wellFormed (heap (processFrames cf mi tc ot cam prev p) (filteredWaveMap p))"
  unfolding processFrames_determined [OF assms]
  by (simp_all add: wellFormed_pixelwise wellFormed_copyOf)

text \<open>
  The body of the callback on any heap: when the two camera frames are objects other
  than the four working images, and these are four different well-formed objects, the
  body changes no other object, and what it leaves in the working images, the counter
  and the decision is the same for any two pipelines that agree on the camera frames and
  the counter.
\<close>

lemma processFrames_leaves_inputs_and_is_determined:
  assumes "cameraImage \<notin> buffers p" and "prevCameraImage \<notin> buffers p"
    and "distinct [diffImage p, highContrastDiffImage p, waveMap p, filteredWaveMap p]"
    and "\<forall>b \<in> buffers p. wellFormed (heap p b) \<and> wellFormed (heap p' b)"
    and "diffImage p' = diffImage p \<and> highContrastDiffImage p' = highContrastDiffImage p
         \<and> waveMap p' = waveMap p \<and> filteredWaveMap p' = filteredWaveMap p"
    and "heap p' cameraImage = heap p cameraImage"
    and "heap p' prevCameraImage = heap p prevCameraImage"
    and "stateImage p' = stateImage p"
  shows "heap (processFrames contrastFactor maxInterval transitionCount outlierThreshold
                 cameraImage prevCameraImage p) cameraImage = heap p cameraImage
       \<and> heap (processFrames contrastFactor maxInterval transitionCount outlierThreshold
                 cameraImage prevCameraImage p) prevCameraImage = heap p prevCameraImage
       \<and> (\<forall>r. r \<notin> buffers p \<longrightarrow>
             heap (processFrames contrastFactor maxInterval transitionCount outlierThreshold
                     cameraImage prevCameraImage p) r = heap p r)
       \<and> (\<forall>b \<in> buffers p.
             heap (processFrames contrastFactor maxInterval transitionCount outlierThreshold
                     cameraImage prevCameraImage p') b
             = heap (processFrames contrastFactor maxInterval transitionCount outlierThreshold
                     cameraImage prevCameraImage p) b)
       \<and> stateImage (processFrames contrastFactor maxInterval transitionCount outlierThreshold
                 cameraImage prevCameraImage p')
           = stateImage (processFrames contrastFactor maxInterval transitionCount outlierThreshold
                 cameraImage prevCameraImage p)
       \<and> isWaving (processFrames contrastFactor maxInterval transitionCount outlierThreshold
                 cameraImage prevCameraImage p')
           = isWaving (processFrames contrastFactor maxInterval transitionCount outlierThreshold
                 cameraImage prevCameraImage p)"
proof -
  let ?run = "processFrames contrastFactor maxInterval transitionCount outlierThreshold
                cameraImage prevCameraImage"
  have same: "buffers p' = buffers p" using assms(5) by (simp add: buffers_def)
  from assms(4) have wf:
    "wellFormed (heap p (diffImage p))" "wellFormed (heap p (highContrastDiffImage p))"
    "wellFormed (heap p (waveMap p))" "wellFormed (heap p (filteredWaveMap p))"
    by (simp_all add: buffers_def)
  from assms(4,5) have wf':
    "wellFormed (heap p' (diffImage p'))" "wellFormed (heap p' (highContrastDiffImage p'))"
    "wellFormed (heap p' (waveMap p'))" "wellFormed (heap p' (filteredWaveMap p'))"
    by (simp_all add: buffers_def)
  from assms(1,2,3,5) have alias':
    "cameraImage \<notin> buffers p'" "prevCameraImage \<notin> buffers p'"
    "distinct [diffImage p', highContrastDiffImage p', waveMap p', filteredWaveMap p']"
    by (simp_all add: same)
  note d = processFrames_determined [OF assms(1,2,3) wf,
      of contrastFactor maxInterval transitionCount outlierThreshold]
  note d' = processFrames_determined [OF alias' wf',
      of contrastFactor maxInterval transitionCount outlierThreshold]
  have inputs: "heap (?run p) cameraImage = heap p cameraImage"
    "heap (?run p) prevCameraImage = heap p prevCameraImage"
    using assms(1,2) by (simp_all add: processFrames_frame)
  have frame: "\<forall>r. r \<notin> buffers p \<longrightarrow> heap (?run p) r = heap p r"
    by (simp add: processFrames_frame)
  have bufs: "\<forall>b \<in> buffers p. heap (?run p') b = heap (?run p) b"
    using d(1,2,4,5) d'(1,2,4,5) assms(5,6,7,8) by (simp add: buffers_def)
  have st: "stateImage (?run p') = stateImage (?run p)"
    using d(3) d'(3) assms(6,7,8) by simp
  have dec: "isWaving (?run p') = isWaving (?run p)"
    using d(6) d'(6) assms(6,7,8) by simp
  from inputs frame bufs st dec show ?thesis by blast
qed

lemma pageInvariant_onload: "pageInvariant (onload shown)"
  by (simp add: pageInvariant_def onload_def wellFormed_def newGreyscaleImage_def)

lemma pageInvariant_hypotheses:
  assumes "pageInvariant page" and "cameraImageVar page = Some c" and "prevCameraImageVar page = Some q"
  shows "c \<notin> buffers (pipeline page)" and "q \<notin> buffers (pipeline page)"
    and "distinct [diffImage (pipeline page), highContrastDiffImage (pipeline page),
                   waveMap (pipeline page), filteredWaveMap (pipeline page)]"
    and "wellFormed (heap (pipeline page) (diffImage (pipeline page)))"
    and "wellFormed (heap (pipeline page) (highContrastDiffImage (pipeline page)))"
    and "wellFormed (heap (pipeline page) (waveMap (pipeline page)))"
    and "wellFormed (heap (pipeline page) (filteredWaveMap (pipeline page)))"
  using assms by (auto simp: pageInvariant_def buffers_def)

lemma pageInvariant_tick:
  assumes "pageInvariant page"
  shows "pageInvariant (tick cf mi tc ot ctx page)"
proof -
  let ?p = "pipeline page" and ?r = "allocated page"
  let ?p2 = "?p\<lparr>heap := (heap ?p)(?r := read ctx newGreyscaleImage)\<rparr>"
  let ?page3 = "page\<lparr>prevCameraImageVar := cameraImageVar page, pipeline := ?p2,
                      allocated := Suc ?r, cameraImageVar := Some ?r\<rparr>"
  have inv3: "pageInvariant ?page3"
    using assms by (auto simp: pageInvariant_def)
  show ?thesis
  proof (cases "cameraImageVar page")
    case None
    with inv3 show ?thesis
      by (simp add: tick_def getGreyscaleImage_def Let_def)
  next
    case (Some q)
    let ?run = "processFrames cf mi tc ot ?r q ?p2"
    have cam: "cameraImageVar ?page3 = Some ?r" and prev: "prevCameraImageVar ?page3 = Some q"
      using Some by simp_all
    have p3: "pipeline ?page3 = ?p2" by simp
    note hyp = pageInvariant_hypotheses [OF inv3 cam prev, unfolded p3]
    have wf: "\<forall>b \<in> {0, 1, 2, 3}. wellFormed (heap ?run b)"
      using processFrames_keeps_wellFormed [OF hyp, of cf mi tc ot] inv3
      by (simp add: pageInvariant_def)
    have "tick cf mi tc ot ctx page = ?page3\<lparr>pipeline := ?run\<rparr>"
      using Some by (simp add: tick_def getGreyscaleImage_def Let_def)
    with inv3 wf show ?thesis
      by (simp add: pageInvariant_def processFrames_refs)
  qed
qed




lemma pageInvariant_ticks: "pageInvariant page \<Longrightarrow> pageInvariant (ticks history page)"
  by (induction history arbitrary: page) (auto simp: pageInvariant_tick)

lemma tick_result:
  assumes "pageInvariant page" and "cameraImageVar page = Some q"
  shows "heap (pipeline (tick cf mi tc ot ctx page)) q = heap (pipeline page) q"
    and "cameraImageVar (tick cf mi tc ot ctx page) = Some (allocated page)"
    and "prevCameraImageVar (tick cf mi tc ot ctx page) = Some q"
    and "heap (pipeline (tick cf mi tc ot ctx page)) (allocated page) = read ctx newGreyscaleImage"
    and "\<And>r. r \<notin> buffers (pipeline page) \<Longrightarrow> r \<noteq> allocated page \<Longrightarrow>
           heap (pipeline (tick cf mi tc ot ctx page)) r = heap (pipeline page) r"
    and "heap (pipeline (tick cf mi tc ot ctx page)) (diffImage (pipeline page))
           = subtract (heap (pipeline page) q) (copyOf (read ctx newGreyscaleImage))"
    and "heap (pipeline (tick cf mi tc ot ctx page)) (highContrastDiffImage (pipeline page))
           = increaseContrast cf (copyOf (subtract (heap (pipeline page) q)
               (copyOf (read ctx newGreyscaleImage))))"
    and "stateImage (pipeline (tick cf mi tc ot ctx page))
           = update (increaseContrast cf (copyOf (subtract (heap (pipeline page) q)
               (copyOf (read ctx newGreyscaleImage))))) mi (stateImage (pipeline page))"
    and "heap (pipeline (tick cf mi tc ot ctx page)) (waveMap (pipeline page))
           = discardOutliers ot (toBinary tc (copyOf
               (update (increaseContrast cf (copyOf (subtract (heap (pipeline page) q)
                  (copyOf (read ctx newGreyscaleImage))))) mi (stateImage (pipeline page)))))"
    and "heap (pipeline (tick cf mi tc ot ctx page)) (filteredWaveMap (pipeline page))
           = copyOf (toBinary tc (copyOf
               (update (increaseContrast cf (copyOf (subtract (heap (pipeline page) q)
                  (copyOf (read ctx newGreyscaleImage))))) mi (stateImage (pipeline page)))))"
    and "isWaving (pipeline (tick cf mi tc ot ctx page))
           = (if num_gt (pixelSum (discardOutliers ot (toBinary tc (copyOf
               (update (increaseContrast cf (copyOf (subtract (heap (pipeline page) q)
                  (copyOf (read ctx newGreyscaleImage))))) mi (stateImage (pipeline page)))))))
                (Num 0) then ''YES!'' else ''Nope'')"
proof -
  let ?p = "pipeline page" and ?r = "allocated page"
  let ?p2 = "?p\<lparr>heap := (heap ?p)(?r := read ctx newGreyscaleImage)\<rparr>"
  let ?page3 = "page\<lparr>prevCameraImageVar := cameraImageVar page, pipeline := ?p2,
                      allocated := Suc ?r, cameraImageVar := Some ?r\<rparr>"
  let ?run = "processFrames cf mi tc ot ?r q ?p2"
  have inv3: "pageInvariant ?page3"
    using assms(1) by (auto simp: pageInvariant_def)
  have cam: "cameraImageVar ?page3 = Some ?r" and prev: "prevCameraImageVar ?page3 = Some q"
    using assms(2) by simp_all
  have p3: "pipeline ?page3 = ?p2" by simp
  note hyp = pageInvariant_hypotheses [OF inv3 cam prev, unfolded p3]
  note d = processFrames_determined [OF hyp, of cf mi tc ot]
  have unfold: "tick cf mi tc ot ctx page = ?page3\<lparr>pipeline := ?run\<rparr>"
    using assms(2) by (simp add: tick_def getGreyscaleImage_def Let_def)
  from assms have q: "q \<noteq> ?r" "q \<notin> buffers ?p" "?r \<notin> buffers ?p"
    by (auto simp: pageInvariant_def buffers_def)
  have bufs: "buffers ?p2 = buffers ?p" by (simp add: buffers_def)
  have refs: "diffImage ?p2 = diffImage ?p" "highContrastDiffImage ?p2 = highContrastDiffImage ?p"
    "waveMap ?p2 = waveMap ?p" "filteredWaveMap ?p2 = filteredWaveMap ?p" "stateImage ?p2 = stateImage ?p"
    by simp_all
  have hq: "heap ?p2 q = heap ?p q" and hr: "heap ?p2 ?r = read ctx newGreyscaleImage"
    using q(1) by simp_all
  show "heap (pipeline (tick cf mi tc ot ctx page)) q = heap (pipeline page) q"
    unfolding unfold using q by (simp add: processFrames_frame bufs)
  show "cameraImageVar (tick cf mi tc ot ctx page) = Some (allocated page)"
    unfolding unfold by simp
  show "prevCameraImageVar (tick cf mi tc ot ctx page) = Some q"
    unfolding unfold using assms(2) by simp
  show "heap (pipeline (tick cf mi tc ot ctx page)) (allocated page) = read ctx newGreyscaleImage"
    unfolding unfold using q by (simp add: processFrames_frame bufs)
  show "heap (pipeline (tick cf mi tc ot ctx page)) r = heap (pipeline page) r"
    if "r \<notin> buffers (pipeline page)" "r \<noteq> allocated page" for r
    unfolding unfold using that by (simp add: processFrames_frame bufs)
  show "heap (pipeline (tick cf mi tc ot ctx page)) (diffImage (pipeline page))
           = subtract (heap (pipeline page) q) (copyOf (read ctx newGreyscaleImage))"
    unfolding unfold using d(1) unfolding refs hq hr by simp
  show "heap (pipeline (tick cf mi tc ot ctx page)) (highContrastDiffImage (pipeline page))
           = increaseContrast cf (copyOf (subtract (heap (pipeline page) q)
               (copyOf (read ctx newGreyscaleImage))))"
    unfolding unfold using d(2) unfolding refs hq hr by simp
  show "stateImage (pipeline (tick cf mi tc ot ctx page))
           = update (increaseContrast cf (copyOf (subtract (heap (pipeline page) q)
               (copyOf (read ctx newGreyscaleImage))))) mi (stateImage (pipeline page))"
    unfolding unfold using d(3) unfolding refs hq hr by simp
  show "heap (pipeline (tick cf mi tc ot ctx page)) (waveMap (pipeline page))
           = discardOutliers ot (toBinary tc (copyOf
               (update (increaseContrast cf (copyOf (subtract (heap (pipeline page) q)
                  (copyOf (read ctx newGreyscaleImage))))) mi (stateImage (pipeline page)))))"
    unfolding unfold using d(4) unfolding refs hq hr by simp
  show "heap (pipeline (tick cf mi tc ot ctx page)) (filteredWaveMap (pipeline page))
           = copyOf (toBinary tc (copyOf
               (update (increaseContrast cf (copyOf (subtract (heap (pipeline page) q)
                  (copyOf (read ctx newGreyscaleImage))))) mi (stateImage (pipeline page)))))"
    unfolding unfold using d(5) unfolding refs hq hr by simp
  show "isWaving (pipeline (tick cf mi tc ot ctx page))
           = (if num_gt (pixelSum (discardOutliers ot (toBinary tc (copyOf
               (update (increaseContrast cf (copyOf (subtract (heap (pipeline page) q)
                  (copyOf (read ctx newGreyscaleImage))))) mi (stateImage (pipeline page)))))))
                (Num 0) then ''YES!'' else ''Nope'')"
    unfolding unfold using d(6) unfolding refs hq hr by simp
qed








lemma pageAfter_0:
  "cameraImageVar (pageAfter 0) = Some 5 \<and> allocated (pageAfter 0) = 6
   \<and> heap (pipeline (pageAfter 0)) 5 = onePixel 100
   \<and> heap (pipeline (pageAfter 0)) 0 = onePixel 228
   \<and> stateImage (pipeline (pageAfter 0))
       = \<lparr>data = [1], width = 1, height = 1, nextExpected = [0], txTimer = [0]\<rparr>"
  by code_simp

lemma pageAfter_10:
  "cameraImageVar (pageAfter 10) = Some 5 \<and> allocated (pageAfter 10) = 6
   \<and> heap (pipeline (pageAfter 10)) 5 = onePixel 100
   \<and> heap (pipeline (pageAfter 10)) 0 = onePixel 218
   \<and> stateImage (pipeline (pageAfter 10))
       = \<lparr>data = [1], width = 1, height = 1, nextExpected = [0], txTimer = [0]\<rparr>"
  by code_simp

text \<open>
  C8. Take any tick that finds a previous frame, on a page \<open>page\<close> reached from
  \<^verbatim>\<open>onload\<close> by earlier ticks. The tick leaves the previous frame as it was, samples and
  dimensions, and the current frame is the image read from the camera, untouched by
  the processing; no object other than the four working images (and the new frame
  object) changes. And the four working images, the counter and the decision after the
  tick are a function of the two frames, the four parameters and the prior counter:
  they are the same on any other reachable page \<open>page'\<close> with the same previous frame and
  counter, given the same parameters and a camera canvas \<open>context'\<close> from which the same
  frame is read.
\<close>

theorem every_tick_pure_and_framed:
  assumes "page = ticks history (onload shown)" and "page' = ticks history' (onload shown')"
    and "cameraImageVar page = Some q" and "cameraImageVar page' = Some q'"
    and "heap (pipeline page') q' = heap (pipeline page) q"
    and "stateImage (pipeline page') = stateImage (pipeline page)"
    and "read context' newGreyscaleImage = read context newGreyscaleImage"
  shows "heap (pipeline (tick contrastFactor maxInterval transitionCount outlierThreshold context page)) q
           = heap (pipeline page) q
       \<and> heap (pipeline (tick contrastFactor maxInterval transitionCount outlierThreshold context page))
             (allocated page) = read context newGreyscaleImage
       \<and> cameraImageVar (tick contrastFactor maxInterval transitionCount outlierThreshold context page)
           = Some (allocated page)
       \<and> prevCameraImageVar (tick contrastFactor maxInterval transitionCount outlierThreshold context page)
           = Some q
       \<and> (\<forall>r. r \<notin> buffers (pipeline page) \<and> r \<noteq> allocated page \<longrightarrow>
             heap (pipeline (tick contrastFactor maxInterval transitionCount outlierThreshold context page)) r
             = heap (pipeline page) r)
       \<and> (\<forall>b \<in> buffers (pipeline page).
             heap (pipeline (tick contrastFactor maxInterval transitionCount outlierThreshold context' page')) b
             = heap (pipeline (tick contrastFactor maxInterval transitionCount outlierThreshold context page)) b)
       \<and> stateImage (pipeline (tick contrastFactor maxInterval transitionCount outlierThreshold context' page'))
           = stateImage (pipeline (tick contrastFactor maxInterval transitionCount outlierThreshold context page))
       \<and> isWaving (pipeline (tick contrastFactor maxInterval transitionCount outlierThreshold context' page'))
           = isWaving (pipeline (tick contrastFactor maxInterval transitionCount outlierThreshold context page))"
proof -
  let ?tick = "tick contrastFactor maxInterval transitionCount outlierThreshold context"
  let ?tick' = "tick contrastFactor maxInterval transitionCount outlierThreshold context'"
  have inv: "pageInvariant page" "pageInvariant page'"
    unfolding assms(1,2) by (simp_all add: pageInvariant_ticks pageInvariant_onload)
  note t = tick_result [OF inv(1) assms(3), where cf = contrastFactor and mi = maxInterval
      and tc = transitionCount and ot = outlierThreshold and ctx = "context"]
  note t' = tick_result [OF inv(2) assms(4), where cf = contrastFactor and mi = maxInterval
      and tc = transitionCount and ot = outlierThreshold and ctx = "context'"]
  from inv have refs:
    "diffImage (pipeline page') = diffImage (pipeline page)"
    "highContrastDiffImage (pipeline page') = highContrastDiffImage (pipeline page)"
    "waveMap (pipeline page') = waveMap (pipeline page)"
    "filteredWaveMap (pipeline page') = filteredWaveMap (pipeline page)"
    by (simp_all add: pageInvariant_def)
  have frame: "\<forall>r. r \<notin> buffers (pipeline page) \<and> r \<noteq> allocated page \<longrightarrow>
             heap (pipeline (?tick page)) r = heap (pipeline page) r"
    using t(5) by blast
  have bufs: "\<forall>b \<in> buffers (pipeline page).
             heap (pipeline (?tick' page')) b = heap (pipeline (?tick page)) b"
    using t(6,7,9,10) t'(6,7,9,10) unfolding refs assms(5,6,7) by (simp add: buffers_def)
  have st: "stateImage (pipeline (?tick' page')) = stateImage (pipeline (?tick page))"
    using t(8) t'(8) unfolding assms(5,6,7) by simp
  have dec: "isWaving (pipeline (?tick' page')) = isWaving (pipeline (?tick page))"
    using t(11) t'(11) unfolding assms(5,6,7) by simp
  from t(1,4,2,3) frame bufs st dec show ?thesis by blast
qed

theorem every_tick_pure_and_framed_witness:
  "cameraImageVar (pageAfter 0) = Some 5 \<and> cameraImageVar (pageAfter 10) = Some 5
   \<and> read (clearCanvas 30) newGreyscaleImage = read (greyCanvas 30) newGreyscaleImage
   \<and> imageData (clearCanvas 30) = [30, 30, 30, 0] \<and> imageData (greyCanvas 30) = [30, 30, 30, 255]
   \<and> heap (pipeline (pageAfter 10)) 5 = heap (pipeline (pageAfter 0)) 5
   \<and> stateImage (pipeline (pageAfter 10)) = stateImage (pipeline (pageAfter 0))
   \<and> heap (pipeline (pageAfter 0)) 0 = onePixel 228
   \<and> heap (pipeline (pageAfter 10)) 0 = onePixel 218
   \<and> heap (pipeline (tick (Num 2) (Num 10) (Num 1) (Num (1 / 2)) (greyCanvas 30) (pageAfter 0))) 5
       = heap (pipeline (pageAfter 0)) 5
   \<and> heap (pipeline (tick (Num 2) (Num 10) (Num 1) (Num (1 / 2)) (greyCanvas 30) (pageAfter 0))) 6
       = read (greyCanvas 30) newGreyscaleImage
   \<and> heap (pipeline (tick (Num 2) (Num 10) (Num 1) (Num (1 / 2)) (clearCanvas 30) (pageAfter 10))) 0
       = heap (pipeline (tick (Num 2) (Num 10) (Num 1) (Num (1 / 2)) (greyCanvas 30) (pageAfter 0))) 0
   \<and> stateImage (pipeline (tick (Num 2) (Num 10) (Num 1) (Num (1 / 2)) (clearCanvas 30) (pageAfter 10)))
       = stateImage (pipeline (tick (Num 2) (Num 10) (Num 1) (Num (1 / 2)) (greyCanvas 30) (pageAfter 0)))
   \<and> isWaving (pipeline (tick (Num 2) (Num 10) (Num 1) (Num (1 / 2)) (clearCanvas 30) (pageAfter 10)))
       = isWaving (pipeline (tick (Num 2) (Num 10) (Num 1) (Num (1 / 2)) (greyCanvas 30) (pageAfter 0)))"
proof -
  have a: "cameraImageVar (pageAfter 0) = Some 5" "cameraImageVar (pageAfter 10) = Some 5"
    using pageAfter_0 pageAfter_10 by simp_all
  have b: "heap (pipeline (pageAfter 10)) 5 = heap (pipeline (pageAfter 0)) 5"
    using pageAfter_0 pageAfter_10 by simp
  have c: "stateImage (pipeline (pageAfter 10)) = stateImage (pipeline (pageAfter 0))"
    using pageAfter_0 pageAfter_10 by simp
  have d: "heap (pipeline (pageAfter 0)) 0 = onePixel 228" "heap (pipeline (pageAfter 10)) 0 = onePixel 218"
    using pageAfter_0 pageAfter_10 by simp_all
  have e: "allocated (pageAfter 0) = 6" using pageAfter_0 by simp
  have g: "read (clearCanvas 30) newGreyscaleImage = read (greyCanvas 30) newGreyscaleImage"
    by code_simp
  have h: "imageData (clearCanvas 30) = [30, 30, 30, 0]" "imageData (greyCanvas 30) = [30, 30, 30, 255]"
    by (simp_all add: clearCanvas_def greyCanvas_def)
  have "pageInvariant (pageAfter 0)"
    unfolding pageAfter_def by (intro pageInvariant_ticks pageInvariant_onload)
  then have f: "0 \<in> buffers (pipeline (pageAfter 0))"
    by (simp add: buffers_def pageInvariant_def)
  note inst = every_tick_pure_and_framed [OF pageAfter_def pageAfter_def a b c g,
      of "Num 2" "Num 10" "Num 1" "Num (1 / 2)"]
  from inst a b c d f g h show ?thesis unfolding e by blast
qed

end
